theory Spec2Isabelle
  imports Main "HOL-Library.Word" "HOL-Library.Sublist"
begin

section \<open>JavaScript strings\<close>

text \<open>
  The two build scripts (\<^verbatim>\<open>remixIntegration.js\<close> and a second, unnamed script that
  differs from it only inside \<^verbatim>\<open>injectFarcadeGameLogic\<close>) read one markup file, patch
  it with \<^verbatim>\<open>String.prototype.replace\<close> and write the result. A JavaScript string is a
  sequence of UTF-16 code units, and the regular expressions of the scripts carry no flag,
  so they match code unit by code unit. A document is therefore a list of 16-bit words;
  \<open>cu\<close> turns an ASCII literal of the source into such a list.

  Where the two scripts differ, a definition carries the suffix \<open>_remix\<close> (for
  \<^verbatim>\<open>remixIntegration.js\<close>) or \<open>_part0\<close> (for the second script, the file \<^verbatim>\<open>part_000\<close>
  of the sources); a definition without suffix is the same in both.
\<close>

type_synonym unit16 = "16 word"
type_synonym document = "unit16 list"

definition cu :: "string \<Rightarrow> document" where
  "cu s = map of_char s"

text \<open>A template literal that runs over several source lines: the lines joined by line feeds.\<close>

fun joinLines :: "string list \<Rightarrow> string" where
  "joinLines [] = []"
| "joinLines [l] = l"
| "joinLines (l # ls) = l @ CHR 0x0A # joinLines ls"

text \<open>\<^verbatim>\<open>s.includes(n)\<close>: some position of \<open>s\<close> (the end included) starts a copy of \<open>n\<close>.\<close>

fun includes_str :: "'a list \<Rightarrow> 'a list \<Rightarrow> bool" where
  "includes_str [] n = (n = [])"
| "includes_str (c # cs) n = (prefix n (c # cs) \<or> includes_str cs n)"

text \<open>
  The number of positions of \<open>s\<close> at which a copy of \<open>n\<close> starts. The scripts do not
  compute it; the properties below count injected texts with it.
\<close>

fun occurrences :: "'a list \<Rightarrow> 'a list \<Rightarrow> nat" where
  "occurrences n [] = (if n = [] then 1 else 0)"
| "occurrences n (c # cs) = (if prefix n (c # cs) then 1 else 0) + occurrences n cs"

text \<open>
  \<open>inserted s t\<close>: \<open>t\<close> is \<open>s\<close> with one (possibly empty) span put in at one place;
  nothing of \<open>s\<close> is removed or changed.
\<close>

definition inserted :: "document \<Rightarrow> document \<Rightarrow> bool" where
  "inserted s t = (\<exists>x ins y. s = x @ y \<and> t = x @ ins @ y)"

section \<open>The regular expressions of the scripts\<close>

text \<open>
  Every pattern of the scripts is a sequence of literal texts, of quantified one-unit
  classes (\<^verbatim>\<open>[\s\S]*?\<close>, \<^verbatim>\<open>\s*\<close>, \<^verbatim>\<open>[^)]+\<close>) and of the parentheses of capture groups,
  which are never nested. A pattern is the list of these items in source order.
\<close>

datatype quant = Greedy | Lazy

datatype item =
    Lit document
  | Star quant "unit16 \<Rightarrow> bool"
  | Plus quant "unit16 \<Rightarrow> bool"
  | Open
  | Close

type_synonym regex = "item list"

text \<open>\<^verbatim>\<open>[\s\S]\<close>: every code unit.\<close>

definition anyUnit :: "unit16 \<Rightarrow> bool" where
  "anyUnit c = True"

text \<open>\<^verbatim>\<open>[^)]\<close>: every code unit but the closing parenthesis.\<close>

definition notRParen :: "unit16 \<Rightarrow> bool" where
  "notRParen c = (c \<noteq> 0x29)"

text \<open>
  \<^verbatim>\<open>\s\<close>: the WhiteSpace and LineTerminator code points of ECMAScript (tab, line feed,
  vertical tab, form feed, carriage return, space, no-break space, the space separators
  of Unicode, line and paragraph separator, the byte order mark).
\<close>

definition whiteSpace :: "unit16 \<Rightarrow> bool" where
  "whiteSpace c = (c \<in> {0x09, 0x0A, 0x0B, 0x0C, 0x0D, 0x20, 0xA0, 0x1680,
      0x2000, 0x2001, 0x2002, 0x2003, 0x2004, 0x2005, 0x2006, 0x2007, 0x2008, 0x2009, 0x200A,
      0x2028, 0x2029, 0x202F, 0x205F, 0x3000, 0xFEFF})"

text \<open>
  A match is returned as one segment of text per pattern item (empty for a parenthesis),
  so the matched text is the concatenation of the segments and a capture is the
  concatenation of the segments between its parentheses.
\<close>

fun consHead :: "unit16 \<Rightarrow> document list \<Rightarrow> document list" where
  "consHead c (seg # segs) = (c # seg) # segs"
| "consHead c [] = [[c]]"

text \<open>
  The backtracking matcher of ECMAScript at one start position. A greedy quantifier tries
  one more repetition before it tries the rest of the pattern; a lazy one tries the rest
  of the pattern first. The first alternative that lets the whole pattern match wins.
\<close>

function matchHere :: "regex \<Rightarrow> document \<Rightarrow> document list option" where
  "matchHere [] s = Some []"
| "matchHere (Open # ps) s = map_option (Cons []) (matchHere ps s)"
| "matchHere (Close # ps) s = map_option (Cons []) (matchHere ps s)"
| "matchHere (Lit l # ps) s =
     (if prefix l s then map_option (Cons l) (matchHere ps (drop (length l) s)) else None)"
| "matchHere (Plus q cls # ps) [] = None"
| "matchHere (Plus q cls # ps) (c # cs) =
     (if cls c then map_option (consHead c) (matchHere (Star q cls # ps) cs) else None)"
| "matchHere (Star Lazy cls # ps) s =
     (case matchHere ps s of
        Some segs \<Rightarrow> Some ([] # segs)
      | None \<Rightarrow>
          (case s of
             [] \<Rightarrow> None
           | c # cs \<Rightarrow>
               if cls c then map_option (consHead c) (matchHere (Star Lazy cls # ps) cs)
               else None))"
| "matchHere (Star Greedy cls # ps) [] = map_option (Cons []) (matchHere ps [])"
| "matchHere (Star Greedy cls # ps) (c # cs) =
     (case (if cls c then matchHere (Star Greedy cls # ps) cs else None) of
        Some segs \<Rightarrow> Some (consHead c segs)
      | None \<Rightarrow> map_option (Cons []) (matchHere ps (c # cs)))"
  by pat_completeness auto
termination
  by (relation "measure (\<lambda>(ps, s). length ps + length s)") auto

text \<open>
  \<^verbatim>\<open>RegExp.prototype.exec\<close> for a pattern without the global flag: the start positions
  are tried from the left, the end of the string included. The result is the text before
  the match, the segments of the match, and the text after it.
\<close>

fun exec :: "regex \<Rightarrow> document \<Rightarrow> (document \<times> document list \<times> document) option" where
  "exec re [] =
     (case matchHere re [] of Some segs \<Rightarrow> Some ([], segs, []) | None \<Rightarrow> None)"
| "exec re (c # cs) =
     (case matchHere re (c # cs) of
        Some segs \<Rightarrow> Some ([], segs, drop (length (concat segs)) (c # cs))
      | None \<Rightarrow> map_option (\<lambda>(b, segs, a). (c # b, segs, a)) (exec re cs))"

text \<open>The captures of a match: for each opening parenthesis the text up to its closing one.\<close>

fun isClose :: "item \<Rightarrow> bool" where
  "isClose Close = True"
| "isClose _ = False"

fun captures :: "regex \<Rightarrow> document list \<Rightarrow> document list" where
  "captures (Open # ps) (seg # segs) =
     concat (take (length (takeWhile (\<lambda>p. \<not> isClose p) ps)) segs) # captures ps segs"
| "captures (p # ps) (seg # segs) = captures ps segs"
| "captures _ _ = []"

text \<open>
  \<^verbatim>\<open>GetSubstitution\<close> for a replacement string and a pattern without capture groups:
  \<^verbatim>\<open>$$\<close> is a dollar sign, \<^verbatim>\<open>$&\<close> the matched text, \<^verbatim>\<open>$`\<close> the text before the match,
  \<^verbatim>\<open>$'\<close> the text after it; every other unit, a dollar before a digit included, stands
  for itself. The only replacement string of the scripts is the one of
  \<^verbatim>\<open>injectFarcadeSDK\<close>, whose pattern has no group.
\<close>

fun getSubstitution :: "document \<Rightarrow> document \<Rightarrow> document \<Rightarrow> document \<Rightarrow> document" where
  "getSubstitution matched preceding following (c # d # r) =
     (if c = 0x24 \<and> d = 0x24 then 0x24 # getSubstitution matched preceding following r
      else if c = 0x24 \<and> d = 0x26 then matched @ getSubstitution matched preceding following r
      else if c = 0x24 \<and> d = 0x60 then preceding @ getSubstitution matched preceding following r
      else if c = 0x24 \<and> d = 0x27 then following @ getSubstitution matched preceding following r
      else c # getSubstitution matched preceding following (d # r))"
| "getSubstitution matched preceding following r = r"

text \<open>\<^verbatim>\<open>s.replace(re, replacement)\<close> with a string and with a function as replacement.\<close>

definition replaceStr :: "document \<Rightarrow> regex \<Rightarrow> document \<Rightarrow> document" where
  "replaceStr s re replacement =
     (case exec re s of
        None \<Rightarrow> s
      | Some (b, segs, a) \<Rightarrow> b @ getSubstitution (concat segs) b a replacement @ a)"

definition replaceFn ::
  "document \<Rightarrow> regex \<Rightarrow> (document \<Rightarrow> document list \<Rightarrow> document) \<Rightarrow> document" where
  "replaceFn s re f =
     (case exec re s of
        None \<Rightarrow> s
      | Some (b, segs, a) \<Rightarrow> b @ f (concat segs) (captures re segs) @ a)"

section \<open>The injection rules\<close>

subsection \<open>\<^verbatim>\<open>injectFarcadeSDK\<close> (the same in both scripts)\<close>

definition farcadeScriptTag :: document where
  \<open>farcadeScriptTag =
     cu ''    <script src="https://cdn.jsdelivr.net/npm/@farcade/game-sdk@latest/dist/index.min.js"></script>''\<close>

definition headPattern :: regex where
  "headPattern = [Lit (cu ''</head>'')]"

definition injectFarcadeSDK :: "document \<Rightarrow> document" where
  "injectFarcadeSDK html =
     replaceStr html headPattern (farcadeScriptTag @ cu (joinLines ['''', ''</head>'']))"

subsection \<open>The texts put in by \<^verbatim>\<open>injectFarcadeGameLogic\<close>\<close>

text \<open>
  Each text is what follows \<^verbatim>\<open>${match}\<close> (or \<^verbatim>\<open>${methodBody}\<close>) in the template literal
  of its rule, line by line.
\<close>

definition readyInjection :: document where
  "readyInjection = cu (joinLines
     ['''',
      '''',
      ''                // Farcade SDK: Signal that the game is fully loaded and ready to play'',
      ''                if (window.FarcadeSDK) {'',
      ''                    window.FarcadeSDK.singlePlayer.actions.ready();'',
      ''                    console.log('Farcade SDK: Game ready signal sent.');'',
      ''                }''])"

definition gameOverInjection_remix :: document where
  "gameOverInjection_remix = cu (joinLines
     ['''',
      '''',
      ''                // Farcade SDK: Hide our play button and call SDK gameOver after a delay'',
      ''                if (window.FarcadeSDK) {'',
      ''                    this.playButton.setVisible(false); // Hide our button since Farcade UI takes over'',
      ''                    '',
      ''                    this.time.delayedCall(4000, () => {'',
      ''                        window.FarcadeSDK.singlePlayer.actions.gameOver({ score: this.maxHeight });'',
      ''                        console.log('Farcade SDK: Game over signal sent with score:', this.maxHeight);'',
      ''                    });'',
      ''                }''])"

definition alternativeInjection :: document where
  "alternativeInjection = cu (joinLines
     ['''',
      '''',
      ''                // Farcade SDK: Hide button and call gameOver (alternative injection)'',
      ''                if (window.FarcadeSDK) {'',
      ''                    this.playButton.setVisible(false); // Hide our button since Farcade UI takes over'',
      ''                    '',
      ''                    this.time.delayedCall(4000, () => {'',
      ''                        window.FarcadeSDK.singlePlayer.actions.gameOver({ score: this.maxHeight });'',
      ''                        console.log('Farcade SDK: Game over signal sent with score (alternative):', this.maxHeight);'',
      ''                    });'',
      ''                }''])"

definition endOfMethodInjection :: document where
  "endOfMethodInjection = cu (joinLines
     ['''',
      '''',
      ''                // Farcade SDK: Hide button and call gameOver (end-of-method injection)'',
      ''                if (window.FarcadeSDK) {'',
      ''                    this.playButton.setVisible(false); // Hide our button since Farcade UI takes over'',
      ''                    '',
      ''                    this.time.delayedCall(4000, () => {'',
      ''                        window.FarcadeSDK.singlePlayer.actions.gameOver({ score: this.maxHeight });'',
      ''                        console.log('Farcade SDK: Game over signal sent with score (end-of-method):', this.maxHeight);'',
      ''                    });'',
      ''                }''])"

definition eventHandlersInjection :: document where
  "eventHandlersInjection = cu (joinLines
     ['''',
      '''',
      ''        // Farcade SDK: Register event handlers for 'play_again' and 'toggle_mute'' @ [CHR 0x27],
      ''        if (window.FarcadeSDK) {'',
      ''            // Handle play again requests from Farcade'',
      ''            window.FarcadeSDK.on('play_again', () => {'',
      ''                console.log('Farcade SDK: Play again requested.');'',
      ''                const activeScene = game.scene.getScene('VerticalLauncher');'',
      ''                if (activeScene && activeScene.startGame) {'',
      ''                    // IMPORTANT: Clean up game over elements before restarting'',
      ''                    if (activeScene.hideGameOverElements) {'',
      ''                        activeScene.hideGameOverElements();'',
      ''                        console.log('Farcade SDK: Game over elements cleaned up.');'',
      ''                    }'',
      ''                    activeScene.startGame();'',
      ''                    console.log('Farcade SDK: Game restarted.');'',
      ''                } else {'',
      ''                    console.warn('Farcade SDK: Could not find active scene to restart game.');'',
      ''                }'',
      ''            });'',
      '''',
      ''            // Handle mute/unmute requests from Farcade'',
      ''            window.FarcadeSDK.on('toggle_mute', (data) => {'',
      ''                console.log('Farcade SDK: Mute toggle requested, isMuted:', data.isMuted);'',
      ''                // Use Phaser's global sound manager to mute/unmute all audio'',
      ''                game.sound.mute = data.isMuted;'',
      ''                console.log('Farcade SDK: All game audio mute state set to:', data.isMuted);'',
      ''            });'',
      '''',
      ''            console.log('Farcade SDK: Event handlers registered.');'',
      ''        }''])"

definition gameOverInjection_part0 :: document where
  "gameOverInjection_part0 = cu (joinLines
     ['''',
      '''',
      ''                // Farcade SDK: Hide our play button and call SDK gameOver after a delay'',
      ''                if (window.FarcadeSDK) {'',
      ''                    this.playButton.setVisible(false); // Hide our button since Farcade UI takes over'',
      ''                    '',
      ''                    this.time.delayedCall(1000, () => {'',
      ''                        window.FarcadeSDK.singlePlayer.actions.gameOver({ score: this.maxHeight });'',
      ''                        console.log('Farcade SDK: Game over signal sent with score:', this.maxHeight);'',
      ''                    });'',
      ''                }''])"

definition fallbackInjection :: document where
  "fallbackInjection = cu (joinLines
     ['''',
      '''',
      ''                // Farcade SDK: Call gameOver after button setup (fallback injection)'',
      ''                if (window.FarcadeSDK) {'',
      ''                    this.time.delayedCall(1000, () => {'',
      ''                        window.FarcadeSDK.singlePlayer.actions.gameOver({ score: this.maxHeight });'',
      ''                        console.log('Farcade SDK: Game over signal sent with score (fallback):', this.maxHeight);'',
      ''                    });'',
      ''                }''])"


text \<open>The text both scripts look for before they try a fallback rule.\<close>

definition gameOverCall :: document where
  "gameOverCall = cu ''window.FarcadeSDK.singlePlayer.actions.gameOver''"

subsection \<open>Rules shared by both scripts\<close>

definition showTitleScreenPattern :: regex where
  "showTitleScreenPattern =
     [Open, Lit (cu ''showTitleScreen() {''), Star Lazy anyUnit,
      Lit (cu ''this.gameElements.forEach(element => element.setVisible(false));''), Close]"

definition injectReady :: "document \<Rightarrow> document" where
  "injectReady modifiedHtml =
     replaceFn modifiedHtml showTitleScreenPattern (\<lambda>match caps. match @ readyInjection)"

definition phaserGameInstancePattern :: regex where
  "phaserGameInstancePattern = [Open, Lit (cu ''const game = new Phaser.Game(config);''), Close]"

definition injectEventHandlers :: "document \<Rightarrow> document" where
  "injectEventHandlers modifiedHtml =
     replaceFn modifiedHtml phaserGameInstancePattern
       (\<lambda>match caps. match @ eventHandlersInjection)"

subsection \<open>\<^verbatim>\<open>injectFarcadeGameLogic\<close> of \<^verbatim>\<open>remixIntegration.js\<close>\<close>

definition gameOverScreenPattern_remix :: regex where
  "gameOverScreenPattern_remix =
     [Open, Lit (cu ''this.playButton.setPosition(''), Plus Greedy notRParen, Lit (cu '');''),
      Star Greedy whiteSpace, Lit (cu ''this.playButton.setInteractive();''), Close]"

definition injectGameOver_remix :: "document \<Rightarrow> document" where
  "injectGameOver_remix modifiedHtml =
     replaceFn modifiedHtml gameOverScreenPattern_remix
       (\<lambda>match caps. match @ gameOverInjection_remix)"

definition alternativePattern :: regex where
  "alternativePattern =
     [Open, Lit (cu ''this.playButton.removeAllListeners();''), Star Greedy whiteSpace,
      Lit (cu ''this.playButton.on('pointerdown', () => {''), Star Lazy anyUnit,
      Lit (cu ''this.startGame();''), Star Lazy anyUnit, Lit (cu ''});''), Close]"

definition injectAlternative :: "document \<Rightarrow> document" where
  "injectAlternative modifiedHtml =
     (if \<not> includes_str modifiedHtml gameOverCall
      then replaceFn modifiedHtml alternativePattern
             (\<lambda>match caps. match @ alternativeInjection)
      else modifiedHtml)"

definition endOfMethodPattern :: regex where
  "endOfMethodPattern =
     [Open, Lit (cu ''showGameOverScreen() {''), Star Lazy anyUnit,
      Lit (cu (''this.playButton.on('pointerdown'' @ [CHR 0x27])), Star Lazy anyUnit,
      Lit (cu ''});''), Close,
      Open, Star Greedy whiteSpace, Lit (cu ''}''), Close]"

text \<open>
  The replacer of the last rule takes the two captures; the pattern has two groups, so
  the second case of the \<open>case\<close> never arises on a match.
\<close>

definition injectEndOfMethod :: "document \<Rightarrow> document" where
  "injectEndOfMethod modifiedHtml =
     (if \<not> includes_str modifiedHtml gameOverCall
      then replaceFn modifiedHtml endOfMethodPattern
             (\<lambda>match caps.
                case caps of
                  methodBody # closingBrace # _ \<Rightarrow> methodBody @ endOfMethodInjection @ closingBrace
                | _ \<Rightarrow> match)
      else modifiedHtml)"

definition injectFarcadeGameLogic_remix :: "document \<Rightarrow> document" where
  "injectFarcadeGameLogic_remix html =
     (let modifiedHtml = html;
          modifiedHtml = injectReady modifiedHtml;
          modifiedHtml = injectGameOver_remix modifiedHtml;
          modifiedHtml = injectAlternative modifiedHtml;
          modifiedHtml = injectEndOfMethod modifiedHtml;
          modifiedHtml = injectEventHandlers modifiedHtml
      in modifiedHtml)"

subsection \<open>\<^verbatim>\<open>injectFarcadeGameLogic\<close> of the second script\<close>

definition gameOverScreenPattern_part0 :: regex where
  "gameOverScreenPattern_part0 =
     [Open, Lit (cu ''this.playButton.setPosition(450, 1360);''), Star Lazy anyUnit,
      Lit (cu ''this.playButton.setInteractive();''), Close]"

definition injectGameOver_part0 :: "document \<Rightarrow> document" where
  "injectGameOver_part0 modifiedHtml =
     replaceFn modifiedHtml gameOverScreenPattern_part0
       (\<lambda>match caps. match @ gameOverInjection_part0)"

definition fallbackPattern :: regex where
  "fallbackPattern =
     [Open, Lit (cu ''this.playButton.removeAllListeners();''), Star Lazy anyUnit,
      Lit (cu ''this.startGame();''), Star Lazy anyUnit, Lit (cu ''});''), Close]"

definition injectFallback :: "document \<Rightarrow> document" where
  "injectFallback modifiedHtml =
     (if \<not> includes_str modifiedHtml gameOverCall
      then replaceFn modifiedHtml fallbackPattern (\<lambda>match caps. match @ fallbackInjection)
      else modifiedHtml)"

definition injectFarcadeGameLogic_part0 :: "document \<Rightarrow> document" where
  "injectFarcadeGameLogic_part0 html =
     (let modifiedHtml = html;
          modifiedHtml = injectReady modifiedHtml;
          modifiedHtml = injectGameOver_part0 modifiedHtml;
          modifiedHtml = injectFallback modifiedHtml;
          modifiedHtml = injectEventHandlers modifiedHtml
      in modifiedHtml)"

section \<open>Files and the run\<close>

text \<open>
  The file system and the error console are the state of a run. A world holds the text of
  every file, the paths whose read fails although a file may be there (with the message
  of the failure), the paths whose write fails (with the message and with what the failed
  write leaves at the path), and the lines printed by \<^verbatim>\<open>console.error\<close>. The progress
  lines of \<^verbatim>\<open>console.log\<close> carry no data and are left out.

  The text of a file is the string that \<^verbatim>\<open>fs.readFileSync(path, 'utf8')\<close> returns for it and
  that \<^verbatim>\<open>fs.writeFileSync\<close> is given: its UTF-16 code units after decoding. The bytes on
  the disk are not part of the state, so every property below that compares documents
  compares them as strings, code unit by code unit.
\<close>

type_synonym path = string

datatype js_error = Error string

record world =
  files :: "path \<rightharpoonup> document"
  readFault :: "path \<rightharpoonup> string"
  writeFault :: "path \<rightharpoonup> string \<times> document option"
  stderr :: "string list"

text \<open>
  \<^verbatim>\<open>fs.readFileSync\<close> and \<^verbatim>\<open>fs.writeFileSync\<close> of Node, as far as the scripts use them:
  they return (a text, nothing) or throw an error with a message. For a path without a
  file the message is the one of Node, with the path in single quotes.
\<close>

definition readFileSync :: "world \<Rightarrow> path \<Rightarrow> js_error + document" where
  "readFileSync w p =
     (case readFault w p of
        Some message \<Rightarrow> Inl (Error message)
      | None \<Rightarrow>
          (case files w p of
             None \<Rightarrow>
               Inl (Error (''ENOENT: no such file or directory, open '' @ [CHR 0x27] @ p @ [CHR 0x27]))
           | Some d \<Rightarrow> Inr d))"

definition writeFileSync :: "world \<Rightarrow> path \<Rightarrow> document \<Rightarrow> (js_error + unit) \<times> world" where
  "writeFileSync w p d =
     (case writeFault w p of
        Some (message, residue) \<Rightarrow> (Inl (Error message), w\<lparr>files := (files w)(p := residue)\<rparr>)
      | None \<Rightarrow> (Inr (), w\<lparr>files := (files w)(p \<mapsto> d)\<rparr>))"

definition indexTemplate :: path where
  "indexTemplate = ''index.html''"

definition outputFile :: path where
  "outputFile = ''index.farcade.html''"

text \<open>\<^verbatim>\<open>readFile\<close> catches the failure, prints it and returns \<^verbatim>\<open>null\<close> (here \<open>None\<close>).\<close>

definition readFile :: "world \<Rightarrow> path \<Rightarrow> document option \<times> world" where
  "readFile w filePath =
     (case readFileSync w filePath of
        Inr d \<Rightarrow> (Some d, w)
      | Inl (Error message) \<Rightarrow>
          (None, w\<lparr>stderr := stderr w @ [''Error reading file '' @ filePath @ '': '' @ message]\<rparr>))"

text \<open>
  \<^verbatim>\<open>writeFile\<close> catches the failure and prints it; it returns \<^verbatim>\<open>undefined\<close> on both
  paths. The left summand of the result is an exception reaching the caller.
\<close>

definition writeFile :: "world \<Rightarrow> path \<Rightarrow> document \<Rightarrow> (js_error + unit) \<times> world" where
  "writeFile w filePath content =
     (case writeFileSync w filePath content of
        (Inr u, w') \<Rightarrow> (Inr (), w')
      | (Inl (Error message), w') \<Rightarrow>
          (Inr (), w'\<lparr>stderr := stderr w' @ [''Error writing file '' @ filePath @ '': '' @ message]\<rparr>))"

text \<open>
  \<^verbatim>\<open>integrateFarcade\<close>; the two scripts differ in the \<^verbatim>\<open>injectFarcadeGameLogic\<close> they
  call, which is the first argument here. \<^verbatim>\<open>!htmlContent\<close> holds for \<^verbatim>\<open>null\<close> and for
  the empty string.
\<close>

definition integrateFarcade ::
  "(document \<Rightarrow> document) \<Rightarrow> world \<Rightarrow> (js_error + unit) \<times> world" where
  "integrateFarcade injectFarcadeGameLogic w =
     (case readFile w indexTemplate of
        (None, w1) \<Rightarrow>
          (Inr (), w1\<lparr>stderr := stderr w1 @ [''Could not read HTML template. Aborting.'']\<rparr>)
      | (Some htmlContent, w1) \<Rightarrow>
          if htmlContent = [] then
            (Inr (), w1\<lparr>stderr := stderr w1 @ [''Could not read HTML template. Aborting.'']\<rparr>)
          else
            (let htmlContent = injectFarcadeSDK htmlContent;
                 htmlContent = injectFarcadeGameLogic htmlContent
             in writeFile w1 outputFile htmlContent))"

definition integrateFarcade_remix :: "world \<Rightarrow> (js_error + unit) \<times> world" where
  "integrateFarcade_remix = integrateFarcade injectFarcadeGameLogic_remix"

definition integrateFarcade_part0 :: "world \<Rightarrow> (js_error + unit) \<times> world" where
  "integrateFarcade_part0 = integrateFarcade injectFarcadeGameLogic_part0"

section \<open>Notions used to state the properties\<close>

text \<open>What the segment of a match can be for each pattern item.\<close>

fun conforms :: "item \<Rightarrow> document \<Rightarrow> bool" where
  "conforms (Lit l) seg = (seg = l)"
| "conforms (Star q cls) seg = list_all cls seg"
| "conforms (Plus q cls) seg = (seg \<noteq> [] \<and> list_all cls seg)"
| "conforms Open seg = (seg = [])"
| "conforms Close seg = (seg = [])"


text \<open>
  \<open>inOrder ls s\<close>: the texts of \<open>ls\<close> occur in \<open>s\<close> one after the other, without overlap.
\<close>

fun inOrder :: "document list \<Rightarrow> document \<Rightarrow> bool" where
  "inOrder [] s = True"
| "inOrder (l # ls) s = (\<exists>g r. s = g @ l @ r \<and> inOrder ls r)"

text \<open>
  \<open>uncut l x y\<close>: no copy of \<open>l\<close> lies across the border between \<open>x\<close> and \<open>y\<close>.
\<close>

definition uncut :: "document \<Rightarrow> document \<Rightarrow> document \<Rightarrow> bool" where
  "uncut l x y = (\<forall>l1 l2. l = l1 @ l2 \<and> l1 \<noteq> [] \<and> l2 \<noteq> [] \<longrightarrow> \<not> (suffix l1 x \<and> prefix l2 y))"




text \<open>
  \<open>insertedOneOf texts s t\<close>: \<open>t\<close> is \<open>s\<close> itself, or \<open>s\<close> with one of the given texts
  put in at one place.
\<close>

definition insertedOneOf :: "document list \<Rightarrow> document \<Rightarrow> document \<Rightarrow> bool" where
  "insertedOneOf texts s t =
     (t = s \<or> (\<exists>x ins y. ins \<in> set texts \<and> s = x @ y \<and> t = x @ ins @ y))"

text \<open>
  \<open>firstMatchAt re s i segs\<close>: position \<open>i\<close> is the first position of \<open>s\<close> at which the
  pattern matches, and \<open>segs\<close> is the match found there. Positions count code units from
  0; the end of the string is a position too.
\<close>

definition firstMatchAt :: "regex \<Rightarrow> document \<Rightarrow> nat \<Rightarrow> document list \<Rightarrow> bool" where
  "firstMatchAt re s i segs =
     (i \<le> length s \<and> matchHere re (drop i s) = Some segs
        \<and> (\<forall>j<i. matchHere re (drop j s) = None))"


text \<open>Worlds and documents on which the properties are tried.\<close>

definition worldWith :: "document \<Rightarrow> world" where
  "worldWith d = \<lparr>files = [indexTemplate \<mapsto> d], readFault = Map.empty,
     writeFault = Map.empty, stderr = []\<rparr>"

definition unwritableWorld :: "document \<Rightarrow> world" where
  "unwritableWorld d = \<lparr>files = [indexTemplate \<mapsto> d], readFault = Map.empty,
     writeFault = [outputFile \<mapsto> (''ENOENT: no such file or directory'', None)], stderr = []\<rparr>"

definition unreadableWorld :: "document \<Rightarrow> world" where
  "unreadableWorld d = \<lparr>files = [indexTemplate \<mapsto> d],
     readFault = [indexTemplate \<mapsto> ''EACCES: permission denied, open 'index.html'' @ [CHR 0x27]],
     writeFault = Map.empty, stderr = []\<rparr>"

definition emptyWorld :: world where
  "emptyWorld = \<lparr>files = Map.empty, readFault = Map.empty, writeFault = Map.empty, stderr = []\<rparr>"

definition plainDoc :: document where
  "plainDoc = cu ''<html><body>AESOPNE</body></html>''"

definition usedWorld :: "document \<Rightarrow> world" where
  "usedWorld d = \<lparr>files = [indexTemplate \<mapsto> d, outputFile \<mapsto> cu ''stale output'',
       ''notes.txt'' \<mapsto> cu ''x''],
     readFault = [''notes.txt'' \<mapsto> ''EACCES: permission denied''],
     writeFault = Map.empty, stderr = [''an earlier line'']\<rparr>"

definition guardedDoc :: document where
  "guardedDoc = cu (joinLines
     [''window.FarcadeSDK.singlePlayer.actions.gameOver({ score: 1 });'',
      ''window.FarcadeSDK.singlePlayer.actions.gameOver({ score: 2 });'',
      ''this.playButton.removeAllListeners();'',
      ''this.playButton.on('pointerdown', () => { this.startGame(); });''])"

definition fallbackDoc :: document where
  "fallbackDoc = cu (joinLines
     [''this.playButton.removeAllListeners();'',
      ''this.playButton.on('pointerdown', () => { this.startGame(); });''])"

definition noHeadDoc :: document where
  "noHeadDoc = cu ''<body><script>const game = new Phaser.Game(config);</script></body>''"

definition primaryDoc :: document where
  "primaryDoc = cu ''this.playButton.setPosition(450, 1360);this.playButton.setInteractive();''"

definition patchedDoc :: document where
  "patchedDoc = cu ''<head>'' @ [0x0A] @ farcadeScriptTag @ [0x0A] @ cu ''</head>''"

definition singleHeadDoc :: document where
  "singleHeadDoc = cu ''<head><title>AESOPNE</title></head><body></body>''"


definition twoAnchorsDoc :: document where
  "twoAnchorsDoc = cu (joinLines
     [''this.playButton.removeAllListeners();'',
      ''this.playButton.on('pointerdown', () => { this.startGame(); });'',
      ''this.playButton.removeAllListeners();'',
      ''this.playButton.on('pointerdown', () => { this.startGame(); });'',
      ''this.playButton.setPosition(450, 1360);'',
      ''this.playButton.setInteractive();''])"
section \<open>Texts, matches and replacements\<close>

lemma includes_str_sublist: "includes_str s n = sublist n s"
  by (induction s) (simp_all add: sublist_Cons_right)

lemma occurrences_zero_iff: "occurrences n s = 0 \<longleftrightarrow> \<not> includes_str s n"
  by (induction s) auto

lemma prefix_sep: "c \<notin> set n \<Longrightarrow> prefix n (x @ c # y) \<longleftrightarrow> prefix n x"
  by (auto simp: prefix_append prefix_Cons)

lemma occurrences_sep:
  "c \<notin> set n \<Longrightarrow> n \<noteq> [] \<Longrightarrow> occurrences n (x @ c # y) = occurrences n x + occurrences n y"
proof (induction x)
  case Nil
  then show ?case by (cases n) (auto simp: prefix_Cons)
next
  case (Cons a x)
  have "prefix n ((a # x) @ c # y) \<longleftrightarrow> prefix n (a # x)"
    using Cons.prems(1) by (rule prefix_sep)
  with Cons show ?case by simp
qed

lemma occurrences_around:
  assumes "n \<noteq> []" "ins \<noteq> []" "hd ins \<notin> set n" "last ins \<notin> set n"
  shows "occurrences n (x @ ins @ y) = occurrences n x + occurrences n ins + occurrences n y"
proof -
  obtain h mid where ins: "ins = h # mid" using assms(2) by (cases ins) auto
  have h: "h \<notin> set n" using assms(3) ins by simp
  show ?thesis
  proof (cases "mid = []")
    case True
    then show ?thesis using occurrences_sep[OF h assms(1), of x y] occurrences_sep[OF h assms(1), of "[]" "[]"] ins assms(1)
      by simp
  next
    case False
    then obtain mid' l where mid: "mid = mid' @ [l]" by (metis rev_exhaust)
    have l: "l \<notin> set n" using assms(4) ins mid by simp
    have "occurrences n (x @ ins @ y) = occurrences n x + occurrences n (mid' @ l # y)"
      using occurrences_sep[OF h assms(1), of x "mid' @ l # y"] ins mid by simp
    also have "occurrences n (mid' @ l # y) = occurrences n mid' + occurrences n y"
      by (rule occurrences_sep[OF l assms(1)])
    finally have a: "occurrences n (x @ ins @ y) = occurrences n x + occurrences n mid' + occurrences n y"
      by simp
    have "occurrences n ins = occurrences n [] + occurrences n (mid' @ l # [])"
      using occurrences_sep[OF h assms(1), of "[]" "mid' @ [l]"] ins mid by simp
    also have "\<dots> = occurrences n mid'"
      using occurrences_sep[OF l assms(1), of mid' "[]"] assms(1) by simp
    finally show ?thesis using a by simp
  qed
qed

lemma occurrences_split_after:
  "n \<noteq> [] \<Longrightarrow> c \<notin> set n \<Longrightarrow> occurrences n ((x @ [c]) @ y) = occurrences n (x @ [c]) + occurrences n y"
  using occurrences_sep[of c n x y] occurrences_sep[of c n x "[]"] by simp

lemma occurrences_split_before:
  "n \<noteq> [] \<Longrightarrow> c \<notin> set n \<Longrightarrow> occurrences n (x @ c # y) = occurrences n x + occurrences n (c # y)"
  using occurrences_sep[of c n x y] occurrences_sep[of c n "[]" y] by simp

lemma consHead_Cons: "segs \<noteq> [] \<Longrightarrow> consHead c segs = (c # hd segs) # tl segs"
  by (cases segs) auto

lemma consHead_conforms:
  assumes "list_all2 conforms (Star q cls # ps) segs'" "prefix (concat segs') cs" "cls c"
  shows "list_all2 conforms (Star q cls # ps) (consHead c segs')"
    and "list_all2 conforms (Plus q cls # ps) (consHead c segs')"
    and "prefix (concat (consHead c segs')) (c # cs)"
proof -
  from assms(1) obtain seg rest where s: "segs' = seg # rest" "list_all cls seg"
    "list_all2 conforms ps rest" by (auto simp: list_all2_Cons1)
  show "list_all2 conforms (Star q cls # ps) (consHead c segs')" using s assms(3) by simp
  show "list_all2 conforms (Plus q cls # ps) (consHead c segs')" using s assms(3) by simp
  show "prefix (concat (consHead c segs')) (c # cs)" using s assms(2) by simp
qed

lemma matchHere_sound:
  "matchHere ps s = Some segs \<Longrightarrow> list_all2 conforms ps segs \<and> prefix (concat segs) s"
proof (induction ps s arbitrary: segs rule: matchHere.induct)
  case (1 s)
  then show ?case by simp
next
  case (2 ps s)
  then show ?case by auto
next
  case (3 ps s)
  then show ?case by auto
next
  case (4 l ps s)
  from "4.prems" have p: "prefix l s" by (simp split: if_splits)
  with "4.prems" obtain segs' where s': "matchHere ps (drop (length l) s) = Some segs'"
    "segs = l # segs'" by auto
  from "4.IH"[OF p s'(1)] have "list_all2 conforms ps segs'"
    "prefix (concat segs') (drop (length l) s)" by auto
  moreover from p have "s = l @ drop (length l) s" by (auto simp: prefix_def)
  ultimately show ?case using s'(2) by (metis concat.simps(2) conforms.simps(1) list_all2_Cons same_prefix_prefix)
next
  case (5 q cls ps)
  then show ?case by simp
next
  case (6 q cls ps c cs)
  from "6.prems" have c: "cls c" by (simp split: if_splits)
  with "6.prems" obtain segs' where s': "matchHere (Star q cls # ps) cs = Some segs'"
    "segs = consHead c segs'" by auto
  from "6.IH"[OF c s'(1)] show ?case using consHead_conforms[of q cls ps segs' cs c] c s'(2)
    by simp
next
  case (7 cls ps s)
  show ?case
  proof (cases "matchHere ps s")
    case (Some segs0)
    with "7.prems" have "segs = [] # segs0" by simp
    with "7.IH"(1)[OF Some] show ?thesis by simp
  next
    case None
    with "7.prems" obtain c cs segs' where s: "s = c # cs" "cls c"
      "matchHere (Star Lazy cls # ps) cs = Some segs'" "segs = consHead c segs'"
      by (auto split: list.splits if_splits)
    from "7.IH"(2)[OF None s(1) s(2) s(3)] show ?thesis
      using consHead_conforms[of Lazy cls ps segs' cs c] s by simp
  qed
next
  case (8 cls ps)
  then show ?case by auto
next
  case (9 cls ps c cs)
  show ?case
  proof (cases "cls c \<and> matchHere (Star Greedy cls # ps) cs \<noteq> None")
    case True
    then obtain segs' where s: "cls c" "matchHere (Star Greedy cls # ps) cs = Some segs'" by auto
    with "9.prems" have e: "segs = consHead c segs'" by simp
    from "9.IH"(1)[OF s(1) s(2)] show ?thesis
      using consHead_conforms[of Greedy cls ps segs' cs c] s e by simp
  next
    case False
    then have n: "(if cls c then matchHere (Star Greedy cls # ps) cs else None) = None" by auto
    with "9.prems" obtain segs0 where s: "matchHere ps (c # cs) = Some segs0" "segs = [] # segs0"
      by auto
    from "9.IH"(2)[OF n s(1)] show ?thesis using s(2) by simp
  qed
qed

lemma exec_Some:
  "exec re s = Some (b, segs, a) \<Longrightarrow>
     s = b @ concat segs @ a \<and> matchHere re (concat segs @ a) = Some segs
     \<and> (\<forall>i<length b. matchHere re (drop i s) = None)"
proof (induction s arbitrary: b)
  case Nil
  then have m: "matchHere re [] = Some segs" "b = []" "a = []" by (auto split: option.splits)
  from matchHere_sound[OF m(1)] have c: "concat segs = []" by simp
  show ?case unfolding c using m by simp
next
  case (Cons c cs)
  show ?case
  proof (cases "matchHere re (c # cs)")
    case None
    with Cons.prems obtain b' where b': "b = c # b'" "exec re cs = Some (b', segs, a)"
      by auto
    from Cons.IH[OF b'(2)] have ih: "cs = b' @ concat segs @ a"
      "matchHere re (concat segs @ a) = Some segs"
      "\<forall>i<length b'. matchHere re (drop i cs) = None" by auto
    have "\<forall>i<length b. matchHere re (drop i (c # cs)) = None"
    proof (intro allI impI)
      fix i assume "i < length b"
      then show "matchHere re (drop i (c # cs)) = None"
        using None ih(3) b'(1) by (cases i) auto
    qed
    then show ?thesis using ih b'(1) by simp
  next
    case (Some segs')
    with Cons.prems have e: "b = []" "segs' = segs" "a = drop (length (concat segs)) (c # cs)" by auto
    from matchHere_sound[OF Some] e have "prefix (concat segs) (c # cs)" by simp
    then have "c # cs = concat segs @ a" using e(3) by (auto simp: prefix_def)
    then show ?thesis using Some e by simp
  qed
qed

lemma exec_None: "exec re s = None \<Longrightarrow> matchHere re (drop i s) = None"
proof (induction s arbitrary: i)
  case Nil
  then show ?case by (auto split: option.splits)
next
  case (Cons c cs)
  then show ?case by (cases i) (auto split: option.splits)
qed

lemma exec_first:
  "\<forall>i<length b. matchHere re (drop i (b @ rest)) = None \<Longrightarrow> matchHere re rest = Some segs \<Longrightarrow>
     exec re (b @ rest) = Some (b, segs, drop (length (concat segs)) rest)"
proof (induction b)
  case Nil
  then show ?case by (cases rest) auto
next
  case (Cons c b)
  from Cons.prems(1) have here: "matchHere re (c # b @ rest) = None" by force
  have "\<forall>i<length b. matchHere re (drop i (b @ rest)) = None"
  proof (intro allI impI)
    fix i assume "i < length b"
    then have "Suc i < length (c # b)" by simp
    with Cons.prems(1) have "matchHere re (drop (Suc i) ((c # b) @ rest)) = None" by blast
    then show "matchHere re (drop i (b @ rest)) = None" by simp
  qed
  from Cons.IH[OF this Cons.prems(2)] here show ?case by simp
qed

lemma getSubstitution_plain: "0x24 \<notin> set r \<Longrightarrow> getSubstitution m b a r = r"
  by (induction m b a r rule: getSubstitution.induct) auto

section \<open>The matcher finds every match\<close>

text \<open>
  Together with \<open>matchHere_sound\<close> this ties the backtracking matcher to the usual reading
  of a pattern: a pattern matches somewhere in a text exactly when the text holds a
  sequence of segments that conform to the items of the pattern.
\<close>

lemma star_complete:
  assumes "list_all cls seg" "matchHere ps r \<noteq> None"
  shows "matchHere (Star q cls # ps) (seg @ r) \<noteq> None"
  using assms(1)
proof (induction seg)
  case Nil
  show ?case
  proof (cases q)
    case Greedy
    then show ?thesis using assms(2) by (cases r) (auto split: option.splits)
  next
    case Lazy
    then show ?thesis using assms(2) by auto
  qed
next
  case (Cons c seg)
  then have c: "cls c" and ih: "matchHere (Star q cls # ps) (seg @ r) \<noteq> None" by auto
  show ?case
  proof (cases q)
    case Greedy
    then show ?thesis using c ih by auto
  next
    case Lazy
    then show ?thesis using c ih by (auto split: option.splits)
  qed
qed

lemma matchHere_complete:
  "list_all2 conforms ps segs \<Longrightarrow> matchHere ps (concat segs @ r) \<noteq> None"
proof (induction ps segs rule: list_all2_induct)
  case Nil
  then show ?case by simp
next
  case (Cons p ps seg segs)
  show ?case
  proof (cases p)
    case (Lit l)
    then show ?thesis using Cons by auto
  next
    case (Star q cls)
    then show ?thesis using Cons star_complete[of cls seg ps "concat segs @ r" q] by simp
  next
    case (Plus q cls)
    with Cons obtain c seg' where s: "seg = c # seg'" "cls c" "list_all cls seg'"
      by (cases seg) auto
    from star_complete[OF s(3) Cons.IH, of q]
    show ?thesis using Plus s by auto
  next
    case Open
    then show ?thesis using Cons by auto
  next
    case Close
    then show ?thesis using Cons by auto
  qed
qed

lemma exec_matches_iff:
  "exec ps s \<noteq> None \<longleftrightarrow> (\<exists>u segs v. s = u @ concat segs @ v \<and> list_all2 conforms ps segs)"
proof
  assume "exec ps s \<noteq> None"
  then obtain b segs a where e: "exec ps s = Some (b, segs, a)" by auto
  from exec_Some[OF e] have "s = b @ concat segs @ a" "matchHere ps (concat segs @ a) = Some segs"
    by simp_all
  with matchHere_sound[of ps "concat segs @ a" segs] show
    "\<exists>u segs v. s = u @ concat segs @ v \<and> list_all2 conforms ps segs" by blast
next
  assume "\<exists>u segs v. s = u @ concat segs @ v \<and> list_all2 conforms ps segs"
  then obtain u segs v where s: "s = u @ concat segs @ v" "list_all2 conforms ps segs" by blast
  from matchHere_complete[OF s(2), of v] have m: "matchHere ps (drop (length u) s) \<noteq> None"
    by (simp add: s(1))
  show "exec ps s \<noteq> None"
  proof
    assume "exec ps s = None"
    then have "matchHere ps (drop (length u) s) = None" by (rule exec_None)
    with m show False by simp
  qed
qed

section \<open>The shape of each rule\<close>

lemma cu_append: "cu (s @ t) = cu s @ cu t"
  by (simp add: cu_def)

lemma cu_newline: "cu (CHR 0x0A # s) = 0x0A # cu s"
  by (simp add: cu_def)

lemma sdk_replacement_plain: "0x24 \<notin> set (farcadeScriptTag @ cu (joinLines ['''', ''</head>'']))"
  by code_simp

lemma matchHere_Lit:
  "matchHere [Lit l] s = (if prefix l s then Some [l] else None)"
  by simp

lemma exec_Lit_None: "exec [Lit l] s = None \<longleftrightarrow> \<not> includes_str s l"
  by (induction s) (auto split: option.splits)

lemma exec_Lit_Some: "exec [Lit l] s = Some (b, segs, a) \<Longrightarrow> segs = [l] \<and> s = b @ l @ a"
  using exec_Some[of "[Lit l]" s b segs a] by (auto split: if_splits)

lemma injectFarcadeSDK_no_head:
  "\<not> includes_str html (cu ''</head>'') \<Longrightarrow> injectFarcadeSDK html = html"
proof -
  assume "\<not> includes_str html (cu ''</head>'')"
  then have "exec headPattern html = None" by (simp add: headPattern_def exec_Lit_None)
  then show ?thesis by (simp add: injectFarcadeSDK_def replaceStr_def)
qed

lemma injectFarcadeSDK_head:
  assumes "exec headPattern html = Some (b, segs, a)"
  shows "html = b @ cu ''</head>'' @ a"
    and "injectFarcadeSDK html = b @ (farcadeScriptTag @ [0x0A]) @ cu ''</head>'' @ a"
proof -
  from assms have s: "segs = [cu ''</head>'']" "html = b @ cu ''</head>'' @ a"
    using exec_Lit_Some[of "cu ''</head>''" html b segs a] by (simp_all add: headPattern_def)
  show "html = b @ cu ''</head>'' @ a" by (rule s(2))
  show "injectFarcadeSDK html = b @ (farcadeScriptTag @ [0x0A]) @ cu ''</head>'' @ a"
    using assms s(1) getSubstitution_plain[OF sdk_replacement_plain]
    by (simp add: injectFarcadeSDK_def replaceStr_def cu_newline)
qed

lemma replaceFn_append:
  "replaceFn s re (\<lambda>match caps. match @ ins) =
     (case exec re s of None \<Rightarrow> s | Some (b, segs, a) \<Rightarrow> b @ concat segs @ ins @ a)"
  by (simp add: replaceFn_def split: option.splits)

text \<open>The matches of the patterns end with a semicolon.\<close>

lemma conforms_ends:
  "list_all2 conforms (qs @ [Lit (l @ [c]), Close]) segs \<Longrightarrow> concat segs \<noteq> [] \<and> last (concat segs) = c"
  by (auto simp: list_all2_append1 list_all2_Cons1)

lemma showTitleScreen_end:
  assumes "matchHere showTitleScreenPattern s = Some segs"
  shows "concat segs \<noteq> [] \<and> last (concat segs) = 0x3B"
proof -
  have "showTitleScreenPattern = [Open, Lit (cu ''showTitleScreen() {''), Star Lazy anyUnit] @
      [Lit (cu ''this.gameElements.forEach(element => element.setVisible(false))'' @ [0x3B]), Close]"
    by (simp add: showTitleScreenPattern_def cu_def)
  with matchHere_sound[OF assms] show ?thesis using conforms_ends by metis
qed

lemma phaserGameInstance_end:
  assumes "matchHere phaserGameInstancePattern s = Some segs"
  shows "concat segs \<noteq> [] \<and> last (concat segs) = 0x3B"
proof -
  have "phaserGameInstancePattern = [Open] @
      [Lit (cu ''const game = new Phaser.Game(config)'' @ [0x3B]), Close]"
    by (simp add: phaserGameInstancePattern_def cu_def)
  with matchHere_sound[OF assms] show ?thesis using conforms_ends by metis
qed

lemma gameOverScreen_remix_end:
  assumes "matchHere gameOverScreenPattern_remix s = Some segs"
  shows "concat segs \<noteq> [] \<and> last (concat segs) = 0x3B"
proof -
  have "gameOverScreenPattern_remix =
     [Open, Lit (cu ''this.playButton.setPosition(''), Plus Greedy notRParen, Lit (cu '');''),
      Star Greedy whiteSpace] @ [Lit (cu ''this.playButton.setInteractive()'' @ [0x3B]), Close]"
    by (simp add: gameOverScreenPattern_remix_def cu_def)
  with matchHere_sound[OF assms] show ?thesis using conforms_ends by metis
qed

lemma gameOverScreen_part0_end:
  assumes "matchHere gameOverScreenPattern_part0 s = Some segs"
  shows "concat segs \<noteq> [] \<and> last (concat segs) = 0x3B"
proof -
  have "gameOverScreenPattern_part0 =
     [Open, Lit (cu ''this.playButton.setPosition(450, 1360);''), Star Lazy anyUnit] @
     [Lit (cu ''this.playButton.setInteractive()'' @ [0x3B]), Close]"
    by (simp add: gameOverScreenPattern_part0_def cu_def)
  with matchHere_sound[OF assms] show ?thesis using conforms_ends by metis
qed

lemma alternative_end:
  assumes "matchHere alternativePattern s = Some segs"
  shows "concat segs \<noteq> [] \<and> last (concat segs) = 0x3B"
proof -
  have "alternativePattern =
     [Open, Lit (cu ''this.playButton.removeAllListeners();''), Star Greedy whiteSpace,
      Lit (cu ''this.playButton.on('pointerdown', () => {''), Star Lazy anyUnit,
      Lit (cu ''this.startGame();''), Star Lazy anyUnit] @ [Lit (cu ''})'' @ [0x3B]), Close]"
    by (simp add: alternativePattern_def cu_def)
  with matchHere_sound[OF assms] show ?thesis using conforms_ends by metis
qed

lemma fallback_end:
  assumes "matchHere fallbackPattern s = Some segs"
  shows "concat segs \<noteq> [] \<and> last (concat segs) = 0x3B"
proof -
  have "fallbackPattern =
     [Open, Lit (cu ''this.playButton.removeAllListeners();''), Star Lazy anyUnit,
      Lit (cu ''this.startGame();''), Star Lazy anyUnit] @ [Lit (cu ''})'' @ [0x3B]), Close]"
    by (simp add: fallbackPattern_def cu_def)
  with matchHere_sound[OF assms] show ?thesis using conforms_ends by metis
qed

text \<open>The last rule: the two captures make up the match, and the first ends with a semicolon.\<close>

lemma endOfMethod_captures:
  assumes "matchHere endOfMethodPattern s = Some segs"
  shows "\<exists>methodBody closingBrace. captures endOfMethodPattern segs = [methodBody, closingBrace]
     \<and> concat segs = methodBody @ closingBrace \<and> methodBody \<noteq> [] \<and> last methodBody = 0x3B"
proof -
  from matchHere_sound[OF assms] have "list_all2 conforms endOfMethodPattern segs" by simp
  then obtain g1 g2 g3 where segs: "segs = [[], cu ''showGameOverScreen() {'', g1,
      cu (''this.playButton.on('pointerdown'' @ [CHR 0x27]), g2, cu ''});'', [], [], g3, cu ''}'', []]"
    unfolding endOfMethodPattern_def by (auto simp: list_all2_Cons1)
  have l: "cu ''});'' = cu ''})'' @ [0x3B]" by (simp add: cu_def)
  show ?thesis unfolding segs endOfMethodPattern_def
    by (simp add: l)
qed


section \<open>Facts about the literal texts\<close>

text \<open>
  Counting in the long literal texts is done on characters and line by line: \<open>cu\<close> is
  injective, and a text without a line feed cannot run over a line end.
\<close>

lemma unat_of_char: "unat (of_char c :: 16 word) = of_char c"
proof -
  have "(of_char c :: 16 word) = of_nat (of_char c)" by (simp add: of_nat_of_char)
  moreover have "(of_char c :: nat) < 2 ^ 16"
    by (rule less_trans[OF nat_of_char_less_256]) simp
  ultimately show ?thesis by (simp add: unat_of_nat take_bit_nat_eq_self)
qed

lemma of_char_unit16_eq: "(of_char c :: 16 word) = of_char d \<longleftrightarrow> c = d"
proof
  assume "(of_char c :: 16 word) = of_char d"
  then have "unat (of_char c :: 16 word) = unat (of_char d :: 16 word)" by simp
  then show "c = d" by (simp add: unat_of_char)
qed simp

lemma cu_Nil_iff: "cu s = [] \<longleftrightarrow> s = []"
  by (simp add: cu_def)

lemma prefix_cu: "prefix (cu n) (cu s) \<longleftrightarrow> prefix n s"
  unfolding cu_def
proof (induction n arbitrary: s)
  case Nil
  then show ?case by simp
next
  case (Cons c n)
  then show ?case by (cases s) (auto simp: of_char_unit16_eq)
qed

lemma occurrences_cu: "occurrences (cu n) (cu s) = occurrences n s"
proof (induction s)
  case Nil
  then show ?case by (simp add: cu_def)
next
  case (Cons c s)
  have "cu (c # s) = of_char c # cu s" by (simp add: cu_def)
  moreover have "prefix (cu n) (cu (c # s)) \<longleftrightarrow> prefix n (c # s)" by (rule prefix_cu)
  ultimately show ?case using Cons by simp
qed

lemma includes_str_cu: "includes_str (cu s) (cu n) \<longleftrightarrow> includes_str s n"
  using occurrences_cu[of n s] occurrences_zero_iff[of n s] occurrences_zero_iff[of "cu n" "cu s"]
  by simp

lemma set_cu: "of_char c \<in> set (cu s) \<longleftrightarrow> c \<in> set s"
  by (auto simp: cu_def of_char_unit16_eq)

lemma joinLines_nonempty: "ls \<noteq> [] \<Longrightarrow> last ls \<noteq> [] \<Longrightarrow> joinLines ls \<noteq> []"
  by (induction ls rule: joinLines.induct) auto

lemma last_joinLines: "ls \<noteq> [] \<Longrightarrow> last ls \<noteq> [] \<Longrightarrow> last (joinLines ls) = last (last ls)"
  by (induction ls rule: joinLines.induct) (auto simp: joinLines_nonempty)

lemma occurrences_joinLines:
  "n \<noteq> [] \<Longrightarrow> CHR 0x0A \<notin> set n \<Longrightarrow> ls \<noteq> [] \<Longrightarrow>
     occurrences n (joinLines ls) = sum_list (map (occurrences n) ls)"
proof (induction ls rule: joinLines.induct)
  case 1
  then show ?case by simp
next
  case (2 l)
  then show ?case by simp
next
  case (3 l v va)
  then show ?case using occurrences_sep[of "CHR 0x0A" n l "joinLines (v # va)"] by simp
qed

lemma occurrences_lines:
  "n \<noteq> [] \<Longrightarrow> CHR 0x0A \<notin> set n \<Longrightarrow> ls \<noteq> [] \<Longrightarrow>
     occurrences (cu n) (cu (joinLines ls)) = sum_list (map (occurrences n) ls)"
  by (simp add: occurrences_cu occurrences_joinLines)

lemma hd_injection: "hd (cu (joinLines ([] # l # ls))) = 0x0A"
  by (simp add: cu_def)

lemma nonempty_injection: "cu (joinLines ([] # l # ls)) \<noteq> []"
  by (simp add: cu_def)

lemma last_injection:
  "ls \<noteq> [] \<Longrightarrow> last ls \<noteq> [] \<Longrightarrow> last (cu (joinLines ls)) = of_char (last (last ls))"
  using last_joinLines[of ls] joinLines_nonempty[of ls] by (simp add: cu_def last_map)

lemma gameOverCall_units:
  "gameOverCall \<noteq> []" "0x3B \<notin> set gameOverCall" "0x0A \<notin> set gameOverCall"
  "0x7D \<notin> set gameOverCall" "0x20 \<notin> set gameOverCall" "0x3C \<notin> set gameOverCall"
  by (simp_all add: gameOverCall_def cu_def)

lemma injection_ends:
  "readyInjection \<noteq> [] \<and> hd readyInjection = 0x0A \<and> last readyInjection = 0x7D"
  "gameOverInjection_remix \<noteq> [] \<and> hd gameOverInjection_remix = 0x0A \<and> last gameOverInjection_remix = 0x7D"
  "alternativeInjection \<noteq> [] \<and> hd alternativeInjection = 0x0A \<and> last alternativeInjection = 0x7D"
  "endOfMethodInjection \<noteq> [] \<and> hd endOfMethodInjection = 0x0A \<and> last endOfMethodInjection = 0x7D"
  "eventHandlersInjection \<noteq> [] \<and> hd eventHandlersInjection = 0x0A \<and> last eventHandlersInjection = 0x7D"
  "gameOverInjection_part0 \<noteq> [] \<and> hd gameOverInjection_part0 = 0x0A \<and> last gameOverInjection_part0 = 0x7D"
  "fallbackInjection \<noteq> [] \<and> hd fallbackInjection = 0x0A \<and> last fallbackInjection = 0x7D"
  unfolding readyInjection_def gameOverInjection_remix_def alternativeInjection_def
    endOfMethodInjection_def eventHandlersInjection_def gameOverInjection_part0_def
    fallbackInjection_def
  by (simp_all only: nonempty_injection hd_injection simp_thms) (subst last_injection, simp, simp, simp)+

lemma injection_calls:
  "occurrences gameOverCall readyInjection = 0"
  "occurrences gameOverCall gameOverInjection_remix = 1"
  "occurrences gameOverCall alternativeInjection = 1"
  "occurrences gameOverCall endOfMethodInjection = 1"
  "occurrences gameOverCall eventHandlersInjection = 0"
  "occurrences gameOverCall gameOverInjection_part0 = 1"
  "occurrences gameOverCall fallbackInjection = 1"
  unfolding readyInjection_def gameOverInjection_remix_def alternativeInjection_def
    endOfMethodInjection_def eventHandlersInjection_def gameOverInjection_part0_def
    fallbackInjection_def gameOverCall_def
  by (subst occurrences_lines, simp, simp, simp, code_simp)+

lemma tag_calls: "occurrences gameOverCall (farcadeScriptTag @ [0x0A]) = 0"
proof -
  have "farcadeScriptTag @ [0x0A] = cu (joinLines [''    <script src=\"https://cdn.jsdelivr.net/npm/@farcade/game-sdk@latest/dist/index.min.js\"></script>'', ''''])"
    by (simp add: farcadeScriptTag_def cu_def)
  then show ?thesis unfolding gameOverCall_def
    by (simp only:) (subst occurrences_lines, simp, simp, simp, code_simp)
qed


section \<open>Counting the game-over call\<close>

text \<open>
  Every rule puts its text in right after a semicolon (or, for the SDK tag, right before
  \<open><\<close>), and every such text starts with a line feed or a space and ends with a brace
  or a line feed. None of these units occurs in the guarded call text, so no copy of it
  is broken or created across the border of an injected text.
\<close>

lemma occurrences_after_match:
  assumes "n \<noteq> []" "ins \<noteq> []" "hd ins \<notin> set n" "last ins \<notin> set n" "m \<noteq> []" "last m \<notin> set n"
  shows "occurrences n (b @ m @ ins @ a) = occurrences n (b @ m @ a) + occurrences n ins"
proof -
  have m: "m = butlast m @ [last m]" using assms(5) by simp
  have "occurrences n ((b @ m) @ ins @ a) = occurrences n (b @ m) + occurrences n ins + occurrences n a"
    by (rule occurrences_around[OF assms(1-4)])
  moreover have "occurrences n (((b @ butlast m) @ [last m]) @ a)
      = occurrences n ((b @ butlast m) @ [last m]) + occurrences n a"
    by (rule occurrences_split_after[OF assms(1,6)])
  then have "occurrences n (b @ m @ a) = occurrences n (b @ m) + occurrences n a"
    using m by (metis append.assoc)
  ultimately show ?thesis by simp
qed

lemma occurrences_replaceFn:
  assumes e: "\<And>s segs. matchHere re s = Some segs \<Longrightarrow> concat segs \<noteq> [] \<and> last (concat segs) = 0x3B"
    and i: "ins \<noteq> [] \<and> hd ins = 0x0A \<and> last ins = 0x7D"
  shows "occurrences gameOverCall (replaceFn d re (\<lambda>match caps. match @ ins)) =
     occurrences gameOverCall d + (if exec re d = None then 0 else occurrences gameOverCall ins)"
proof (cases "exec re d")
  case None
  then show ?thesis by (simp add: replaceFn_append)
next
  case (Some r)
  obtain b segs a where r: "r = (b, segs, a)" by (cases r) auto
  from exec_Some[OF Some[unfolded r]] have d: "d = b @ concat segs @ a"
    and m: "matchHere re (concat segs @ a) = Some segs" by auto
  from e[OF m] have l: "concat segs \<noteq> []" "last (concat segs) \<notin> set gameOverCall"
    using gameOverCall_units by auto
  have "occurrences gameOverCall (b @ concat segs @ ins @ a)
     = occurrences gameOverCall (b @ concat segs @ a) + occurrences gameOverCall ins"
    using occurrences_after_match[OF gameOverCall_units(1) _ _ _ l, of ins b a] i gameOverCall_units
    by simp
  then show ?thesis using Some r d by (simp add: replaceFn_append)
qed

lemma occurrences_injectReady:
  "occurrences gameOverCall (injectReady d) = occurrences gameOverCall d"
  unfolding injectReady_def
  using occurrences_replaceFn[of showTitleScreenPattern readyInjection d, OF showTitleScreen_end injection_ends(1)]
  by (simp add: injection_calls)

lemma occurrences_injectEventHandlers:
  "occurrences gameOverCall (injectEventHandlers d) = occurrences gameOverCall d"
  unfolding injectEventHandlers_def
  using occurrences_replaceFn[of phaserGameInstancePattern eventHandlersInjection d, OF phaserGameInstance_end injection_ends(5)]
  by (simp add: injection_calls)

lemma occurrences_injectGameOver_remix:
  "occurrences gameOverCall (injectGameOver_remix d) =
     occurrences gameOverCall d + (if exec gameOverScreenPattern_remix d = None then 0 else 1)"
  unfolding injectGameOver_remix_def
  using occurrences_replaceFn[of gameOverScreenPattern_remix gameOverInjection_remix d, OF gameOverScreen_remix_end injection_ends(2)]
  by (simp add: injection_calls)

lemma occurrences_injectGameOver_part0:
  "occurrences gameOverCall (injectGameOver_part0 d) =
     occurrences gameOverCall d + (if exec gameOverScreenPattern_part0 d = None then 0 else 1)"
  unfolding injectGameOver_part0_def
  using occurrences_replaceFn[of gameOverScreenPattern_part0 gameOverInjection_part0 d, OF gameOverScreen_part0_end injection_ends(6)]
  by (simp add: injection_calls)

lemma occurrences_injectAlternative:
  "occurrences gameOverCall (injectAlternative d) =
     (if occurrences gameOverCall d = 0 \<and> exec alternativePattern d \<noteq> None then 1
      else occurrences gameOverCall d)"
  unfolding injectAlternative_def
  using occurrences_replaceFn[of alternativePattern alternativeInjection d, OF alternative_end injection_ends(3)]
  by (simp add: injection_calls occurrences_zero_iff[symmetric])

lemma occurrences_injectFallback:
  "occurrences gameOverCall (injectFallback d) =
     (if occurrences gameOverCall d = 0 \<and> exec fallbackPattern d \<noteq> None then 1
      else occurrences gameOverCall d)"
  unfolding injectFallback_def
  using occurrences_replaceFn[of fallbackPattern fallbackInjection d, OF fallback_end injection_ends(7)]
  by (simp add: injection_calls occurrences_zero_iff[symmetric])

lemma injectEndOfMethod_fires:
  assumes "\<not> includes_str d gameOverCall" "exec endOfMethodPattern d = Some (b, segs, a)"
  shows "\<exists>methodBody closingBrace. d = b @ methodBody @ closingBrace @ a
     \<and> injectEndOfMethod d = b @ methodBody @ endOfMethodInjection @ closingBrace @ a
     \<and> methodBody \<noteq> [] \<and> last methodBody = 0x3B"
proof -
  from exec_Some[OF assms(2)] have d: "d = b @ concat segs @ a"
    and m: "matchHere endOfMethodPattern (concat segs @ a) = Some segs" by auto
  from endOfMethod_captures[OF m] obtain methodBody closingBrace where
    c: "captures endOfMethodPattern segs = [methodBody, closingBrace]"
       "concat segs = methodBody @ closingBrace" "methodBody \<noteq> []" "last methodBody = 0x3B"
    by blast
  have "injectEndOfMethod d = b @ methodBody @ endOfMethodInjection @ closingBrace @ a"
    using assms c(1) by (simp add: injectEndOfMethod_def replaceFn_def)
  then show ?thesis using d c by auto
qed

lemma occurrences_injectEndOfMethod:
  "occurrences gameOverCall (injectEndOfMethod d) =
     (if occurrences gameOverCall d = 0 \<and> exec endOfMethodPattern d \<noteq> None then 1
      else occurrences gameOverCall d)"
proof (cases "occurrences gameOverCall d = 0 \<and> exec endOfMethodPattern d \<noteq> None")
  case True
  then obtain b segs a where e: "exec endOfMethodPattern d = Some (b, segs, a)" by auto
  from True have n: "\<not> includes_str d gameOverCall" by (simp add: occurrences_zero_iff)
  from injectEndOfMethod_fires[OF n e] obtain methodBody closingBrace where
    f: "d = b @ methodBody @ closingBrace @ a"
       "injectEndOfMethod d = b @ methodBody @ endOfMethodInjection @ closingBrace @ a"
       "methodBody \<noteq> []" "last methodBody = 0x3B" by blast
  have "occurrences gameOverCall (b @ methodBody @ endOfMethodInjection @ (closingBrace @ a))
     = occurrences gameOverCall (b @ methodBody @ (closingBrace @ a))
       + occurrences gameOverCall endOfMethodInjection"
    using occurrences_after_match[OF gameOverCall_units(1), of endOfMethodInjection methodBody b "closingBrace @ a"]
      injection_ends(4) gameOverCall_units f(3,4) by simp
  then show ?thesis using True f(1,2) by (simp add: injection_calls)
next
  case False
  then show ?thesis
    by (auto simp: injectEndOfMethod_def replaceFn_def occurrences_zero_iff split: option.splits)
qed

lemma occurrences_injectFarcadeSDK:
  "occurrences gameOverCall (injectFarcadeSDK d) = occurrences gameOverCall d"
proof (cases "exec headPattern d")
  case None
  then show ?thesis by (simp add: injectFarcadeSDK_def replaceStr_def)
next
  case (Some r)
  obtain b segs a where r: "r = (b, segs, a)" by (cases r) auto
  note h = injectFarcadeSDK_head[OF Some[unfolded r]]
  have hd: "cu ''</head>'' @ a = 0x3C # cu ''/head>'' @ a" by (simp add: cu_def)
  have t: "farcadeScriptTag @ [0x0A] \<noteq> [] \<and> hd (farcadeScriptTag @ [0x0A]) = 0x20
     \<and> last (farcadeScriptTag @ [0x0A]) = 0x0A" by (simp add: farcadeScriptTag_def cu_def)
  have "occurrences gameOverCall (b @ (farcadeScriptTag @ [0x0A]) @ (0x3C # cu ''/head>'' @ a))
     = occurrences gameOverCall b + occurrences gameOverCall (farcadeScriptTag @ [0x0A])
       + occurrences gameOverCall (0x3C # cu ''/head>'' @ a)"
    using occurrences_around[OF gameOverCall_units(1), of "farcadeScriptTag @ [0x0A]"] t gameOverCall_units
    by simp
  moreover have "occurrences gameOverCall (b @ 0x3C # cu ''/head>'' @ a)
     = occurrences gameOverCall b + occurrences gameOverCall (0x3C # cu ''/head>'' @ a)"
    by (rule occurrences_split_before[OF gameOverCall_units(1) gameOverCall_units(6)])
  ultimately show ?thesis using h hd by (simp add: tag_calls)
qed


section \<open>Anchors survive the earlier injections\<close>

text \<open>
  The fallback anchors are literal texts in a fixed order, with arbitrary text (or white
  space) between them. The SDK tag goes in before a \<open><\<close> and the ready call after
  \<open>));\<close>; neither place lies inside one of the literal texts, so an anchor that is
  present in the input is still present when the game-over rules run.
\<close>

lemma uncut_suffix: "uncut l x y \<Longrightarrow> suffix t x \<Longrightarrow> uncut l t y"
  unfolding uncut_def using suffix_order.trans by blast

lemma inOrder_insert:
  "inOrder ls (x @ y) \<Longrightarrow> \<forall>l\<in>set ls. uncut l x y \<Longrightarrow> inOrder ls (x @ ins @ y)"
proof (induction ls arbitrary: x)
  case Nil
  then show ?case by simp
next
  case (Cons l ls)
  from Cons.prems(1) obtain g r where s: "x @ y = g @ l @ r" and o: "inOrder ls r" by auto
  from s consider (inG) t where "x @ t = g" "y = t @ l @ r"
    | (pastG) t where "x = g @ t" "t @ y = l @ r"
    by (auto simp: append_eq_append_conv2)
  then show ?case
  proof cases
    case inG
    then have "x @ ins @ y = (x @ ins @ t) @ l @ r" by simp
    with o show ?thesis unfolding inOrder.simps by blast
  next
    case pastG
    from pastG(2) consider (pastL) t' where "t = l @ t'" "t' @ y = r"
      | (inL) t' where "t @ t' = l" "y = t' @ r"
      by (auto simp: append_eq_append_conv2)
    then show ?thesis
    proof cases
      case pastL
      have "suffix t' x" using pastG(1) pastL(1) by (simp add: suffix_def)
      then have u: "\<forall>l\<in>set ls. uncut l t' y" using Cons.prems(2) uncut_suffix by auto
      from o pastL(2) have "inOrder ls (t' @ y)" by simp
      from Cons.IH[OF this u] have "inOrder ls (t' @ ins @ y)" .
      moreover have "x @ ins @ y = g @ l @ (t' @ ins @ y)" using pastG(1) pastL(1) by simp
      ultimately show ?thesis unfolding inOrder.simps by blast
    next
      case inL
      show ?thesis
      proof (cases "t = []")
        case True
        then have "x @ ins @ y = (g @ ins) @ l @ r" using pastG(1) inL by simp
        with o show ?thesis unfolding inOrder.simps by blast
      next
        case tne: False
        show ?thesis
        proof (cases "t' = []")
          case True
          then have e: "t = l" "y = r" using inL by simp_all
          have "suffix [] x" by simp
          then have u: "\<forall>l\<in>set ls. uncut l [] y" using Cons.prems(2) uncut_suffix by auto
          from o e have "inOrder ls ([] @ y)" by simp
          from Cons.IH[OF this u] have "inOrder ls (ins @ y)" by simp
          moreover have "x @ ins @ y = g @ l @ (ins @ y)" using pastG(1) e by simp
          ultimately show ?thesis unfolding inOrder.simps by blast
        next
          case False
          have c: "suffix t x \<and> prefix t' y" using pastG(1) inL(2) by (simp add: suffix_def)
          have "uncut l x y" using Cons.prems(2) by simp
          from this[unfolded uncut_def, rule_format, where ?l1.0 = t and ?l2.0 = t']
          have "\<not> (suffix t x \<and> prefix t' y)" using inL(1) tne False by simp
          with c show ?thesis by simp
        qed
      qed
    qed
  qed
qed

lemma uncut_before: "c \<notin> set l \<Longrightarrow> uncut l x (c # y)"
  unfolding uncut_def by (auto simp: prefix_Cons neq_Nil_conv)

lemma uncut_after: "c \<notin> set (butlast l) \<Longrightarrow> uncut l (x @ [c]) y"
proof (unfold uncut_def, intro allI impI notI)
  fix l1 l2 assume n: "c \<notin> set (butlast l)" and a: "l = l1 @ l2 \<and> l1 \<noteq> [] \<and> l2 \<noteq> []"
    and b: "suffix l1 (x @ [c]) \<and> prefix l2 y"
  from a b have "last l1 = c" by (metis last_snoc suffix_def last_appendR)
  with a have "c \<in> set l1" by (metis last_in_set)
  moreover from a have "butlast l = l1 @ butlast l2" by (simp add: butlast_append)
  ultimately show False using n by simp
qed

lemma fallback_inOrder:
  "exec fallbackPattern s \<noteq> None \<longleftrightarrow>
     inOrder [cu ''this.playButton.removeAllListeners();'', cu ''this.startGame();'', cu ''});''] s"
proof
  assume "exec fallbackPattern s \<noteq> None"
  then obtain u segs v where s: "s = u @ concat segs @ v" "list_all2 conforms fallbackPattern segs"
    unfolding exec_matches_iff by blast
  from s(2) obtain g1 g2 where "segs = [[], cu ''this.playButton.removeAllListeners();'', g1,
      cu ''this.startGame();'', g2, cu ''});'', []]"
    unfolding fallbackPattern_def by (auto simp: list_all2_Cons1)
  with s(1) have "s = u @ cu ''this.playButton.removeAllListeners();'' @ (g1 @ cu ''this.startGame();''
      @ (g2 @ cu ''});'' @ v))" by simp
  then show "inOrder [cu ''this.playButton.removeAllListeners();'', cu ''this.startGame();'', cu ''});''] s"
    unfolding inOrder.simps by blast
next
  assume "inOrder [cu ''this.playButton.removeAllListeners();'', cu ''this.startGame();'', cu ''});''] s"
  then obtain u g1 g2 v where s: "s = u @ cu ''this.playButton.removeAllListeners();'' @ (g1 @ cu ''this.startGame();''
      @ (g2 @ cu ''});'' @ v))" unfolding inOrder.simps by blast
  let ?segs = "[[], cu ''this.playButton.removeAllListeners();'', g1,
      cu ''this.startGame();'', g2, cu ''});'', []]"
  have "list_all2 conforms fallbackPattern ?segs"
    by (simp add: fallbackPattern_def anyUnit_def list_all_iff)
  moreover have "s = u @ concat ?segs @ v" using s by simp
  ultimately show "exec fallbackPattern s \<noteq> None" unfolding exec_matches_iff by blast
qed

lemma alternative_inOrder:
  "exec alternativePattern s \<noteq> None \<longleftrightarrow>
     (\<exists>w. list_all whiteSpace w \<and>
        inOrder [cu ''this.playButton.removeAllListeners();'' @ w
                   @ cu ''this.playButton.on('pointerdown', () => {'',
                 cu ''this.startGame();'', cu ''});''] s)"
proof
  assume "exec alternativePattern s \<noteq> None"
  then obtain u segs v where s: "s = u @ concat segs @ v" "list_all2 conforms alternativePattern segs"
    unfolding exec_matches_iff by blast
  from s(2) obtain w g1 g2 where segs: "segs = [[], cu ''this.playButton.removeAllListeners();'', w,
      cu ''this.playButton.on('pointerdown', () => {'', g1, cu ''this.startGame();'', g2, cu ''});'', []]"
    and w: "list_all whiteSpace w"
    unfolding alternativePattern_def by (auto simp: list_all2_Cons1)
  with s(1) have "s = u @ (cu ''this.playButton.removeAllListeners();'' @ w
                   @ cu ''this.playButton.on('pointerdown', () => {'') @ (g1 @ cu ''this.startGame();''
      @ (g2 @ cu ''});'' @ v))" by simp
  then have "inOrder [cu ''this.playButton.removeAllListeners();'' @ w
                   @ cu ''this.playButton.on('pointerdown', () => {'',
                 cu ''this.startGame();'', cu ''});''] s"
    unfolding inOrder.simps by blast
  with w show "\<exists>w. list_all whiteSpace w \<and>
        inOrder [cu ''this.playButton.removeAllListeners();'' @ w
                   @ cu ''this.playButton.on('pointerdown', () => {'',
                 cu ''this.startGame();'', cu ''});''] s" by blast
next
  assume "\<exists>w. list_all whiteSpace w \<and>
        inOrder [cu ''this.playButton.removeAllListeners();'' @ w
                   @ cu ''this.playButton.on('pointerdown', () => {'',
                 cu ''this.startGame();'', cu ''});''] s"
  then obtain w u g1 g2 v where w: "list_all whiteSpace w"
    and s: "s = u @ (cu ''this.playButton.removeAllListeners();'' @ w
                   @ cu ''this.playButton.on('pointerdown', () => {'') @ (g1 @ cu ''this.startGame();''
      @ (g2 @ cu ''});'' @ v))" unfolding inOrder.simps by blast
  let ?segs = "[[], cu ''this.playButton.removeAllListeners();'', w,
      cu ''this.playButton.on('pointerdown', () => {'', g1, cu ''this.startGame();'', g2, cu ''});'', []]"
  have "list_all2 conforms alternativePattern ?segs"
    using w by (simp add: alternativePattern_def anyUnit_def list_all_iff)
  moreover have "s = u @ concat ?segs @ v" using s by simp
  ultimately show "exec alternativePattern s \<noteq> None" unfolding exec_matches_iff by blast
qed

lemma anchor_units:
  "0x3C \<notin> set (cu ''this.playButton.removeAllListeners();'')"
  "0x3C \<notin> set (cu ''this.playButton.on('pointerdown', () => {'')"
  "0x3C \<notin> set (cu ''this.startGame();'')"
  "0x3C \<notin> set (cu ''});'')"
  "0x3B \<notin> set (butlast (cu ''this.playButton.removeAllListeners();''))"
  "0x3B \<notin> set (cu ''this.playButton.on('pointerdown', () => {'')"
  "0x3B \<notin> set (butlast (cu ''this.startGame();''))"
  "0x3B \<notin> set (butlast (cu ''});''))"
  "\<not> suffix (cu ''));'') (cu ''this.playButton.removeAllListeners();'')"
  by (simp_all add: cu_def suffix_to_prefix)

lemma whiteSpace_units: "list_all whiteSpace w \<Longrightarrow> 0x3C \<notin> set w \<and> 0x3B \<notin> set w"
  by (auto simp: list_all_iff whiteSpace_def)

lemma uncut_block_after:
  assumes w: "list_all whiteSpace w"
  shows "uncut (cu ''this.playButton.removeAllListeners();'' @ w
           @ cu ''this.playButton.on('pointerdown', () => {'') (x0 @ cu ''));'') y"
proof (unfold uncut_def, intro allI impI notI)
  fix l1 l2
  assume a: "cu ''this.playButton.removeAllListeners();'' @ w
           @ cu ''this.playButton.on('pointerdown', () => {'' = l1 @ l2 \<and> l1 \<noteq> [] \<and> l2 \<noteq> []"
    and b: "suffix l1 (x0 @ cu ''));'') \<and> prefix l2 y"
  have t: "cu ''));'' = cu ''))'' @ [0x3B]" by (simp add: cu_def)
  from a b have "last l1 = 0x3B" unfolding t by (metis append.assoc last_snoc suffix_def last_appendR)
  with a obtain l1' where l1: "l1 = l1' @ [0x3B]" by (metis append_butlast_last_id)
  have A: "cu ''this.playButton.removeAllListeners();''
      = cu ''this.playButton.removeAllListeners()'' @ [0x3B]" by (simp add: cu_def)
  have n1: "0x3B \<notin> set (cu ''this.playButton.removeAllListeners()'')"
    using anchor_units(5) unfolding A by simp
  have n2: "0x3B \<notin> set (w @ cu ''this.playButton.on('pointerdown', () => {'')"
    using whiteSpace_units[OF w] anchor_units(6) by simp
  from a have "cu ''this.playButton.removeAllListeners()'' @ 0x3B #
      (w @ cu ''this.playButton.on('pointerdown', () => {'') = l1' @ 0x3B # l2"
    unfolding A l1 by simp
  with append_Cons_eq_iff[OF n1 n2] have "cu ''this.playButton.removeAllListeners()'' = l1'"
    by blast
  then have "l1 = cu ''this.playButton.removeAllListeners();''" unfolding l1 A by simp
  with b have "suffix (cu ''this.playButton.removeAllListeners();'') (x0 @ cu ''));'')" by simp
  moreover have "suffix (cu ''));'') (x0 @ cu ''));'')" by (simp add: suffix_def)
  moreover have "length (cu ''));'') \<le> length (cu ''this.playButton.removeAllListeners();'')"
    by (simp add: cu_def)
  ultimately have "suffix (cu ''));'') (cu ''this.playButton.removeAllListeners();'')"
    by (metis suffix_length_suffix)
  with anchor_units(9) show False by simp
qed

lemma inOrder_injectFarcadeSDK:
  assumes "inOrder ls d" "\<forall>l\<in>set ls. 0x3C \<notin> set l"
  shows "inOrder ls (injectFarcadeSDK d)"
proof (cases "exec headPattern d")
  case None
  then show ?thesis using assms(1) by (simp add: injectFarcadeSDK_def replaceStr_def)
next
  case (Some r)
  obtain b segs a where r: "r = (b, segs, a)" by (cases r) auto
  note h = injectFarcadeSDK_head[OF Some[unfolded r]]
  have y: "cu ''</head>'' @ a = 0x3C # (cu ''/head>'' @ a)" by (simp add: cu_def)
  have u: "\<forall>l\<in>set ls. uncut l b (cu ''</head>'' @ a)"
    unfolding y using assms(2) uncut_before by blast
  from assms(1) have "inOrder ls (b @ (cu ''</head>'' @ a))" using h(1) by simp
  from inOrder_insert[OF this u, of "farcadeScriptTag @ [0x0A]"] show ?thesis
    using h(2) by simp
qed

lemma showTitleScreen_tail:
  assumes "matchHere showTitleScreenPattern s = Some segs"
  shows "\<exists>m. concat segs = m @ cu ''));''"
proof -
  from matchHere_sound[OF assms] obtain g where "segs = [[], cu ''showTitleScreen() {'', g,
      cu ''this.gameElements.forEach(element => element.setVisible(false));'', []]"
    unfolding showTitleScreenPattern_def by (auto simp: list_all2_Cons1)
  moreover have "cu ''this.gameElements.forEach(element => element.setVisible(false));''
     = cu ''this.gameElements.forEach(element => element.setVisible(false'' @ cu ''));''"
    by (simp add: cu_def)
  ultimately have "concat segs = (cu ''showTitleScreen() {'' @ g
      @ cu ''this.gameElements.forEach(element => element.setVisible(false'') @ cu ''));''" by simp
  then show ?thesis by blast
qed

lemma inOrder_injectReady:
  assumes "inOrder ls d" "\<And>x0 y. \<forall>l\<in>set ls. uncut l (x0 @ cu ''));'') y"
  shows "inOrder ls (injectReady d)"
proof (cases "exec showTitleScreenPattern d")
  case None
  then show ?thesis using assms(1) by (simp add: injectReady_def replaceFn_def)
next
  case (Some r)
  obtain b segs a where r: "r = (b, segs, a)" by (cases r) auto
  from exec_Some[OF Some[unfolded r]] have d: "d = b @ concat segs @ a"
    and m: "matchHere showTitleScreenPattern (concat segs @ a) = Some segs" by simp_all
  from showTitleScreen_tail[OF m] obtain m0 where c: "concat segs = m0 @ cu ''));''" by blast
  have o: "inOrder ls (((b @ m0) @ cu ''));'') @ a)" using assms(1) d c by simp
  have "inOrder ls (((b @ m0) @ cu ''));'') @ readyInjection @ a)"
    by (rule inOrder_insert[OF o assms(2)])
  moreover have "injectReady d = ((b @ m0) @ cu ''));'') @ readyInjection @ a"
    using Some r c by (simp add: injectReady_def replaceFn_append)
  ultimately show ?thesis by simp
qed

lemma fallback_kept:
  assumes "exec fallbackPattern html \<noteq> None"
  shows "exec fallbackPattern (injectReady (injectFarcadeSDK html)) \<noteq> None"
proof -
  let ?ls = "[cu ''this.playButton.removeAllListeners();'', cu ''this.startGame();'', cu ''});'']"
  have t: "cu ''));'' = cu ''))'' @ [0x3B]" by (simp add: cu_def)
  from assms have "inOrder ?ls html" by (simp only: fallback_inOrder)
  then have "inOrder ?ls (injectFarcadeSDK html)"
    by (rule inOrder_injectFarcadeSDK) (simp add: anchor_units)
  then have "inOrder ?ls (injectReady (injectFarcadeSDK html))"
  proof (rule inOrder_injectReady)
    fix x0 y
    have "\<And>l. 0x3B \<notin> set (butlast l) \<Longrightarrow> uncut l (x0 @ cu ''));'') y"
      unfolding t using uncut_after[of "0x3B" _ "x0 @ cu ''))''" y] by simp
    then show "\<forall>l\<in>set ?ls. uncut l (x0 @ cu ''));'') y"
      using anchor_units(5,7,8) by simp
  qed
  then show ?thesis by (simp only: fallback_inOrder)
qed

lemma alternative_kept:
  assumes "exec alternativePattern html \<noteq> None"
  shows "exec alternativePattern (injectReady (injectFarcadeSDK html)) \<noteq> None"
proof -
  from assms obtain w where w: "list_all whiteSpace w"
    and o: "inOrder [cu ''this.playButton.removeAllListeners();'' @ w
                   @ cu ''this.playButton.on('pointerdown', () => {'',
                 cu ''this.startGame();'', cu ''});''] html"
    unfolding alternative_inOrder by blast
  let ?ls = "[cu ''this.playButton.removeAllListeners();'' @ w
                   @ cu ''this.playButton.on('pointerdown', () => {'',
                 cu ''this.startGame();'', cu ''});'']"
  have t: "cu ''));'' = cu ''))'' @ [0x3B]" by (simp add: cu_def)
  have "inOrder ?ls (injectFarcadeSDK html)"
    by (rule inOrder_injectFarcadeSDK[OF o]) (use whiteSpace_units[OF w] anchor_units in simp)
  then have "inOrder ?ls (injectReady (injectFarcadeSDK html))"
  proof (rule inOrder_injectReady)
    fix x0 y
    have "\<And>l. 0x3B \<notin> set (butlast l) \<Longrightarrow> uncut l (x0 @ cu ''));'') y"
      unfolding t using uncut_after[of "0x3B" _ "x0 @ cu ''))''" y] by simp
    then show "\<forall>l\<in>set ?ls. uncut l (x0 @ cu ''));'') y"
      using anchor_units(7,8) uncut_block_after[OF w] by simp
  qed
  with w show ?thesis unfolding alternative_inOrder by blast
qed

section \<open>The game-over rules\<close>

lemma count_remix:
  assumes "\<not> includes_str html gameOverCall"
  shows "occurrences gameOverCall (injectFarcadeGameLogic_remix (injectFarcadeSDK html)) =
     (if exec gameOverScreenPattern_remix (injectReady (injectFarcadeSDK html)) = None
       \<and> exec alternativePattern (injectReady (injectFarcadeSDK html)) = None
       \<and> exec endOfMethodPattern (injectReady (injectFarcadeSDK html)) = None then 0 else 1)"
proof -
  define d where "d = injectReady (injectFarcadeSDK html)"
  define d2 where "d2 = injectGameOver_remix d"
  define d3 where "d3 = injectAlternative d2"
  define d4 where "d4 = injectEndOfMethod d3"
  have out: "injectFarcadeGameLogic_remix (injectFarcadeSDK html) = injectEventHandlers d4"
    by (simp add: injectFarcadeGameLogic_remix_def d_def d2_def d3_def d4_def)
  have d0: "occurrences gameOverCall d = 0"
    using assms
    by (simp add: d_def occurrences_injectReady occurrences_injectFarcadeSDK occurrences_zero_iff)
  have c2: "occurrences gameOverCall d2 = (if exec gameOverScreenPattern_remix d = None then 0 else 1)"
    by (simp add: d2_def occurrences_injectGameOver_remix d0)
  have c3: "occurrences gameOverCall d3 =
      (if occurrences gameOverCall d2 = 0 \<and> exec alternativePattern d2 \<noteq> None then 1
       else occurrences gameOverCall d2)"
    unfolding d3_def by (rule occurrences_injectAlternative)
  have c4: "occurrences gameOverCall d4 =
      (if occurrences gameOverCall d3 = 0 \<and> exec endOfMethodPattern d3 \<noteq> None then 1
       else occurrences gameOverCall d3)"
    unfolding d4_def by (rule occurrences_injectEndOfMethod)
  have e2: "exec gameOverScreenPattern_remix d = None \<Longrightarrow> d2 = d"
    by (simp add: d2_def injectGameOver_remix_def replaceFn_def)
  have e3: "exec alternativePattern d2 = None \<Longrightarrow> d3 = d2"
    by (simp add: d3_def injectAlternative_def replaceFn_def)
  have "occurrences gameOverCall d4 =
     (if exec gameOverScreenPattern_remix d = None \<and> exec alternativePattern d = None
       \<and> exec endOfMethodPattern d = None then 0 else 1)"
  proof (cases "exec gameOverScreenPattern_remix d = None")
    case False
    with c2 have "occurrences gameOverCall d2 = 1" by simp
    with c3 have "occurrences gameOverCall d3 = 1" by simp
    with c4 have "occurrences gameOverCall d4 = 1" by simp
    with False show ?thesis by simp
  next
    case True
    note p = e2[OF True]
    from c2 True have z2: "occurrences gameOverCall d2 = 0" by simp
    show ?thesis
    proof (cases "exec alternativePattern d = None")
      case False
      with c3 z2 p have "occurrences gameOverCall d3 = 1" by simp
      with c4 have "occurrences gameOverCall d4 = 1" by simp
      with False show ?thesis by simp
    next
      case alt: True
      with p e3 have q: "d3 = d" by simp
      with c4 d0 have "occurrences gameOverCall d4 = (if exec endOfMethodPattern d \<noteq> None then 1 else 0)"
        by simp
      with True alt show ?thesis by simp
    qed
  qed
  then show ?thesis unfolding out by (simp add: occurrences_injectEventHandlers d_def)
qed

lemma count_part0:
  assumes "\<not> includes_str html gameOverCall"
  shows "occurrences gameOverCall (injectFarcadeGameLogic_part0 (injectFarcadeSDK html)) =
     (if exec gameOverScreenPattern_part0 (injectReady (injectFarcadeSDK html)) = None
       \<and> exec fallbackPattern (injectReady (injectFarcadeSDK html)) = None then 0 else 1)"
proof -
  define d where "d = injectReady (injectFarcadeSDK html)"
  define d2 where "d2 = injectGameOver_part0 d"
  define d3 where "d3 = injectFallback d2"
  have out: "injectFarcadeGameLogic_part0 (injectFarcadeSDK html) = injectEventHandlers d3"
    by (simp add: injectFarcadeGameLogic_part0_def d_def d2_def d3_def)
  have d0: "occurrences gameOverCall d = 0"
    using assms
    by (simp add: d_def occurrences_injectReady occurrences_injectFarcadeSDK occurrences_zero_iff)
  have c2: "occurrences gameOverCall d2 = (if exec gameOverScreenPattern_part0 d = None then 0 else 1)"
    by (simp add: d2_def occurrences_injectGameOver_part0 d0)
  have c3: "occurrences gameOverCall d3 =
      (if occurrences gameOverCall d2 = 0 \<and> exec fallbackPattern d2 \<noteq> None then 1
       else occurrences gameOverCall d2)"
    unfolding d3_def by (rule occurrences_injectFallback)
  have e2: "exec gameOverScreenPattern_part0 d = None \<Longrightarrow> d2 = d"
    by (simp add: d2_def injectGameOver_part0_def replaceFn_def)
  have "occurrences gameOverCall d3 =
     (if exec gameOverScreenPattern_part0 d = None \<and> exec fallbackPattern d = None then 0 else 1)"
  proof (cases "exec gameOverScreenPattern_part0 d = None")
    case False
    with c2 have "occurrences gameOverCall d2 = 1" by simp
    with c3 have "occurrences gameOverCall d3 = 1" by simp
    with False show ?thesis by simp
  next
    case True
    note p = e2[OF True]
    from c2 True have z2: "occurrences gameOverCall d2 = 0" by simp
    with c3 p have "occurrences gameOverCall d3 = (if exec fallbackPattern d \<noteq> None then 1 else 0)"
      by simp
    with True show ?thesis by simp
  qed
  then show ?thesis unfolding out by (simp add: occurrences_injectEventHandlers d_def)
qed

lemma guardedDoc_includes: "includes_str guardedDoc gameOverCall"
  unfolding guardedDoc_def gameOverCall_def includes_str_cu by code_simp

lemma guardedDoc_staged: "injectReady (injectFarcadeSDK guardedDoc) = guardedDoc"
  by code_simp

lemma guardedDoc_anchors:
  "exec gameOverScreenPattern_remix guardedDoc = None"
  "exec alternativePattern guardedDoc \<noteq> None"
  "exec gameOverScreenPattern_part0 guardedDoc = None"
  "exec fallbackPattern guardedDoc \<noteq> None"
  by code_simp+

lemma guardedDoc_count: "occurrences gameOverCall guardedDoc = 2"
  unfolding guardedDoc_def gameOverCall_def occurrences_cu by code_simp

lemma guardedDoc_rest:
  "exec phaserGameInstancePattern guardedDoc = None"
  by code_simp

lemma fallbackDoc_excludes: "\<not> includes_str fallbackDoc gameOverCall"
  unfolding fallbackDoc_def gameOverCall_def includes_str_cu by code_simp

lemma fallbackDoc_anchors:
  "exec gameOverScreenPattern_remix fallbackDoc = None"
  "exec alternativePattern fallbackDoc \<noteq> None"
  "exec gameOverScreenPattern_part0 fallbackDoc = None"
  "exec fallbackPattern fallbackDoc \<noteq> None"
  by code_simp+

lemma guard_blocks:
  assumes "includes_str html gameOverCall"
  shows "includes_str (injectGameOver_remix (injectReady (injectFarcadeSDK html))) gameOverCall"
    and "includes_str (injectGameOver_part0 (injectReady (injectFarcadeSDK html))) gameOverCall"
proof -
  from assms have n: "occurrences gameOverCall html \<noteq> 0" by (simp add: occurrences_zero_iff)
  show "includes_str (injectGameOver_remix (injectReady (injectFarcadeSDK html))) gameOverCall"
    using n occurrences_zero_iff[of gameOverCall "injectGameOver_remix (injectReady (injectFarcadeSDK html))"]
    by (simp add: occurrences_injectGameOver_remix occurrences_injectReady occurrences_injectFarcadeSDK)
  show "includes_str (injectGameOver_part0 (injectReady (injectFarcadeSDK html))) gameOverCall"
    using n occurrences_zero_iff[of gameOverCall "injectGameOver_part0 (injectReady (injectFarcadeSDK html))"]
    by (simp add: occurrences_injectGameOver_part0 occurrences_injectReady occurrences_injectFarcadeSDK)
qed

section \<open>Rules only insert\<close>

lemma inserted_refl: "inserted d d"
  unfolding inserted_def by (intro exI[of _ d] exI[of _ "[]"]) simp



lemma inserted_replaceFn: "inserted d (replaceFn d re (\<lambda>match caps. match @ ins))"
proof (cases "exec re d")
  case None
  then show ?thesis by (simp add: replaceFn_append inserted_refl)
next
  case (Some r)
  obtain b segs a where r: "r = (b, segs, a)" by (cases r) auto
  from exec_Some[OF Some[unfolded r]] have d: "d = (b @ concat segs) @ a" by simp
  have "replaceFn d re (\<lambda>match caps. match @ ins) = (b @ concat segs) @ ins @ a"
    using Some r by (simp add: replaceFn_append)
  with d show ?thesis unfolding inserted_def by blast
qed


lemma inserted_injectEndOfMethod: "inserted d (injectEndOfMethod d)"
proof (cases "\<not> includes_str d gameOverCall \<and> exec endOfMethodPattern d \<noteq> None")
  case True
  then obtain b segs a where e: "exec endOfMethodPattern d = Some (b, segs, a)" by auto
  from injectEndOfMethod_fires[OF _ e] True obtain methodBody closingBrace where
    f: "d = b @ methodBody @ closingBrace @ a"
       "injectEndOfMethod d = b @ methodBody @ endOfMethodInjection @ closingBrace @ a" by blast
  show ?thesis unfolding inserted_def
    using f by (intro exI[of _ "b @ methodBody"] exI[of _ endOfMethodInjection] exI[of _ "closingBrace @ a"]) simp
next
  case False
  then have "injectEndOfMethod d = d"
    by (auto simp: injectEndOfMethod_def replaceFn_def split: option.splits)
  then show ?thesis by (simp add: inserted_refl)
qed

lemma inserted_rules:
  "inserted d (injectReady d)"
  "inserted d (injectGameOver_remix d)"
  "inserted d (injectAlternative d)"
  "inserted d (injectEventHandlers d)"
  "inserted d (injectGameOver_part0 d)"
  "inserted d (injectFallback d)"
  by (simp_all add: injectReady_def injectGameOver_remix_def injectAlternative_def
      injectEventHandlers_def injectGameOver_part0_def injectFallback_def
      inserted_replaceFn inserted_refl)




section \<open>The first occurrence of an anchor\<close>

lemma prefix_includes: "prefix n s \<Longrightarrow> includes_str s n"
  by (cases s) auto

lemma includes_str_prepend: "includes_str s n \<Longrightarrow> includes_str (p @ s) n"
  by (simp add: includes_str_sublist sublist_append)

lemma prefix_first:
  assumes "t \<noteq> []" "x \<noteq> []" "prefix t (x @ t @ a)"
  shows "includes_str (x @ butlast t) t"
proof -
  have "x @ t @ a = (x @ butlast t) @ (last t # a)" using assms(1) by simp
  moreover have "length t \<le> length (x @ butlast t)" using assms(1,2) by (cases x) auto
  ultimately have "prefix t (x @ butlast t)"
    using assms(3) by (metis prefix_length_prefix prefixI)
  then show ?thesis by (rule prefix_includes)
qed

lemma first_occurrence:
  assumes "t \<noteq> []" "\<not> includes_str (b @ butlast t) t" "i < length b"
  shows "\<not> prefix t (drop i (b @ t @ a))"
proof
  assume p: "prefix t (drop i (b @ t @ a))"
  have d: "drop i (b @ t @ a) = drop i b @ t @ a" using assms(3) by simp
  have "drop i b \<noteq> []" using assms(3) by simp
  from prefix_first[OF assms(1) this p[unfolded d]]
  have "includes_str (take i b @ drop i b @ butlast t) t" by (rule includes_str_prepend)
  then show False using assms(2) by (metis append.assoc append_take_drop_id)
qed

lemma lazy_star_first:
  assumes "t \<noteq> []" "\<not> includes_str (g @ butlast t) t"
  shows "matchHere [Star Lazy anyUnit, Lit t, Close] (g @ t @ a) = Some [g, t, []]"
  using assms(2)
proof (induction g)
  case Nil
  then show ?case by simp
next
  case (Cons c g)
  have "\<not> prefix t (drop 0 ((c # g) @ t @ a))"
    by (rule first_occurrence[OF assms(1) Cons.prems]) simp
  then have n: "\<not> prefix t (c # g @ t @ a)" by simp
  from Cons.prems have "\<not> includes_str (g @ butlast t) t" by simp
  from Cons.IH[OF this] show ?case using n by (simp add: anyUnit_def)
qed

lemma injectFarcadeSDK_first:
  assumes "\<not> includes_str (b @ cu ''</head'') (cu ''</head>'')"
  shows "injectFarcadeSDK (b @ cu ''</head>'' @ a) = b @ farcadeScriptTag @ [0x0A] @ cu ''</head>'' @ a"
proof -
  have bl: "butlast (cu ''</head>'') = cu ''</head''" and ne: "cu ''</head>'' \<noteq> []"
    by (simp_all add: cu_def)
  have "\<forall>i<length b. matchHere headPattern (drop i (b @ cu ''</head>'' @ a)) = None"
    using first_occurrence[OF ne, of b _ a] assms by (simp add: bl headPattern_def)
  moreover have "matchHere headPattern (cu ''</head>'' @ a) = Some [cu ''</head>'']"
    by (simp add: headPattern_def)
  ultimately have "exec headPattern (b @ cu ''</head>'' @ a) = Some (b, [cu ''</head>''], a)"
    using exec_first[of b headPattern "cu ''</head>'' @ a" "[cu ''</head>'']"] by simp
  from injectFarcadeSDK_head(2)[OF this] show ?thesis by simp
qed

lemma injectReady_first:
  assumes "\<not> includes_str (b @ cu ''showTitleScreen() '') (cu ''showTitleScreen() {'')"
    and "\<not> includes_str (g @ cu ''this.gameElements.forEach(element => element.setVisible(false))'')
           (cu ''this.gameElements.forEach(element => element.setVisible(false));'')"
  shows "injectReady (b @ cu ''showTitleScreen() {'' @ g
            @ cu ''this.gameElements.forEach(element => element.setVisible(false));'' @ a)
       = b @ cu ''showTitleScreen() {'' @ g
            @ cu ''this.gameElements.forEach(element => element.setVisible(false));''
            @ readyInjection @ a"
proof -
  let ?h = "cu ''showTitleScreen() {''"
  let ?t = "cu ''this.gameElements.forEach(element => element.setVisible(false));''"
  have bh: "butlast ?h = cu ''showTitleScreen() ''" and nh: "?h \<noteq> []"
    and bt: "butlast ?t = cu ''this.gameElements.forEach(element => element.setVisible(false))''"
    and nt: "?t \<noteq> []"
    by (simp_all add: cu_def)
  have l: "matchHere [Star Lazy anyUnit, Lit ?t, Close] (g @ ?t @ a) = Some [g, ?t, []]"
    using lazy_star_first[OF nt, of g a] assms(2) by (simp add: bt)
  have m: "matchHere showTitleScreenPattern (?h @ g @ ?t @ a) = Some [[], ?h, g, ?t, []]"
    unfolding showTitleScreenPattern_def using l by simp
  have "\<forall>i<length b. matchHere showTitleScreenPattern (drop i (b @ ?h @ (g @ ?t @ a))) = None"
    using first_occurrence[OF nh, of b _ "g @ ?t @ a"] assms(1)
    by (simp add: bh showTitleScreenPattern_def)
  from exec_first[OF this m]
  have "exec showTitleScreenPattern (b @ ?h @ g @ ?t @ a) = Some (b, [[], ?h, g, ?t, []], a)"
    by simp
  then show ?thesis by (simp add: injectReady_def replaceFn_append)
qed

section \<open>Counting the SDK script tag\<close>

lemma occurrences_append_le:
  "occurrences n x \<le> occurrences n (x @ y)" "occurrences n y \<le> occurrences n (x @ y)"
proof -
  show "occurrences n x \<le> occurrences n (x @ y)"
  proof (induction x)
    case Nil
    then show ?case by (cases y) auto
  next
    case (Cons c x)
    have "prefix n (c # x) \<Longrightarrow> prefix n (c # x @ y)"
      by (metis append_Cons prefix_prefix)
    with Cons show ?case by auto
  qed
  show "occurrences n y \<le> occurrences n (x @ y)"
    by (induction x) auto
qed

lemma occurrences_short: "length s < length n \<Longrightarrow> occurrences n s = 0"
  by (induction s) (auto dest: prefix_length_le)

lemma occurrences_append_self:
  assumes u: "\<forall>k. 0 < k \<and> k < length n \<longrightarrow> \<not> prefix (drop k n) n" and ne: "n \<noteq> []"
  shows "occurrences n x = 0 \<Longrightarrow> occurrences n (x @ n) = 1"
proof (induction x)
  case Nil
  have "occurrences n (tl n) = 0" using ne by (intro occurrences_short) simp
  then show ?case using ne by (cases n) auto
next
  case (Cons c x)
  from Cons.prems have np: "\<not> prefix n (c # x)" and z: "occurrences n x = 0"
    by (auto split: if_splits)
  have "\<not> prefix n ((c # x) @ n)"
  proof
    assume "prefix n ((c # x) @ n)"
    with np obtain us where us: "n = (c # x) @ us" "prefix us n"
      by (metis prefix_append)
    from us(1) np have "us \<noteq> []" by auto
    with us(1) have k: "0 < length (c # x)" "length (c # x) < length n" "drop (length (c # x)) n = us"
      by (simp, metis length_append length_greater_0_conv less_add_same_cancel1, metis append_eq_conv_conj)
    with u us(2) show False by blast
  qed
  with Cons.IH[OF z] show ?case by simp
qed

lemma unbordered_cu:
  assumes "list_all (\<lambda>k. \<not> prefix (drop k s) s) [1..<length s]"
  shows "\<forall>k. 0 < k \<and> k < length (cu s) \<longrightarrow> \<not> prefix (drop k (cu s)) (cu s)"
proof (intro allI impI)
  fix k assume k: "0 < k \<and> k < length (cu s)"
  then have "k \<in> set [1..<length s]" by (simp add: cu_def)
  with assms have "\<not> prefix (drop k s) s" by (simp add: list_all_iff)
  moreover have "drop k (cu s) = cu (drop k s)" by (simp add: cu_def drop_map)
  ultimately show "\<not> prefix (drop k (cu s)) (cu s)" by (simp add: prefix_cu)
qed

lemma farcadeScriptTag_unbordered:
  "\<forall>k. 0 < k \<and> k < length farcadeScriptTag \<longrightarrow> \<not> prefix (drop k farcadeScriptTag) farcadeScriptTag"
  unfolding farcadeScriptTag_def by (rule unbordered_cu) code_simp

lemma farcadeScriptTag_units: "farcadeScriptTag \<noteq> []" "0x0A \<notin> set farcadeScriptTag"
  by (simp_all add: farcadeScriptTag_def cu_def)

lemma injectFarcadeSDK_fresh_tag:
  assumes "html = b @ cu ''</head>'' @ a" "\<not> includes_str html farcadeScriptTag"
  shows "occurrences farcadeScriptTag (b @ farcadeScriptTag @ [0x0A] @ cu ''</head>'' @ a) = 1"
proof -
  from assms(2) have z: "occurrences farcadeScriptTag html = 0" by (simp add: occurrences_zero_iff)
  have zb: "occurrences farcadeScriptTag b = 0"
    using occurrences_append_le(1)[of farcadeScriptTag b "cu ''</head>'' @ a"] z assms(1) by simp
  have za: "occurrences farcadeScriptTag (cu ''</head>'' @ a) = 0"
    using occurrences_append_le(2)[of farcadeScriptTag "cu ''</head>'' @ a" b] z assms(1) by simp
  have "occurrences farcadeScriptTag ((b @ farcadeScriptTag) @ 0x0A # (cu ''</head>'' @ a))
     = occurrences farcadeScriptTag (b @ farcadeScriptTag)
       + occurrences farcadeScriptTag (cu ''</head>'' @ a)"
    by (rule occurrences_sep[OF farcadeScriptTag_units(2) farcadeScriptTag_units(1)])
  moreover have "occurrences farcadeScriptTag (b @ farcadeScriptTag) = 1"
    by (rule occurrences_append_self[OF farcadeScriptTag_unbordered farcadeScriptTag_units(1) zb])
  ultimately show ?thesis using za by simp
qed

lemma includes_str_iff: "includes_str s n \<longleftrightarrow> (\<exists>i\<le>length s. prefix n (drop i s))"
proof (induction s)
  case Nil
  then show ?case by simp
next
  case (Cons c cs)
  show ?case
  proof
    assume "includes_str (c # cs) n"
    then consider "prefix n (c # cs)" | "includes_str cs n" by auto
    then show "\<exists>i\<le>length (c # cs). prefix n (drop i (c # cs))"
    proof cases
      case 1
      then have "prefix n (drop 0 (c # cs))" by simp
      then show ?thesis by blast
    next
      case 2
      with Cons.IH obtain i where "i \<le> length cs" "prefix n (drop i cs)" by blast
      then have "Suc i \<le> length (c # cs)" "prefix n (drop (Suc i) (c # cs))" by simp_all
      then show ?thesis by blast
    qed
  next
    assume "\<exists>i\<le>length (c # cs). prefix n (drop i (c # cs))"
    then obtain i where i: "i \<le> length (c # cs)" "prefix n (drop i (c # cs))" by blast
    show "includes_str (c # cs) n"
    proof (cases i)
      case 0
      with i(2) show ?thesis by simp
    next
      case (Suc j)
      with i have "j \<le> length cs" "prefix n (drop j cs)" by simp_all
      with Cons.IH have "includes_str cs n" by blast
      then show ?thesis by simp
    qed
  qed
qed

lemma occurrences_pos_decomp:
  assumes o: "occurrences (n::document) s \<noteq> 0" and ne: "n \<noteq> []"
  shows "\<exists>b a. s = b @ n @ a \<and> \<not> includes_str (b @ butlast n) n"
proof -
  from o have "exec [Lit n] s \<noteq> None" by (simp add: exec_Lit_None occurrences_zero_iff)
  then obtain b segs a where e: "exec [Lit n] s = Some (b, segs, a)" by auto
  from exec_Lit_Some[OF e] have s: "s = b @ n @ a" by simp
  have g: "\<forall>i<length b. matchHere [Lit n] (drop i s) = None"
    by (rule conjunct2[OF conjunct2[OF exec_Some[OF e]]])
  have f: "\<And>i. i < length b \<Longrightarrow> \<not> prefix n (drop i s)"
  proof -
    fix i assume "i < length b"
    then have "matchHere [Lit n] (drop i s) = None" by (rule g[rule_format])
    then show "\<not> prefix n (drop i s)" unfolding matchHere_Lit by (simp split: if_splits)
  qed
  have "\<not> includes_str (b @ butlast n) n"
  proof
    assume "includes_str (b @ butlast n) n"
    then obtain i where i: "i \<le> length (b @ butlast n)" "prefix n (drop i (b @ butlast n))"
      unfolding includes_str_iff by blast
    from i(2) have "length n \<le> length (drop i (b @ butlast n))" by (rule prefix_length_le)
    then have "length n \<le> length b + (length n - 1) - i" by simp
    moreover have "0 < length n" using ne by simp
    ultimately have l: "i < length b" by arith
    have p1: "prefix n (drop i (b @ butlast n) @ (last n # a))"
      using i(2) by (rule prefix_prefix)
    have p2: "drop i (b @ butlast n) @ (last n # a) = drop i ((b @ butlast n) @ (last n # a))"
      using i(1) by simp
    have p3: "(b @ butlast n) @ (last n # a) = s"
      unfolding s using ne by simp
    have "prefix n (drop i s)" using p1 unfolding p2 p3 .
    with f[OF l] show False ..
  qed
  with s show ?thesis by blast
qed

lemma farcadeScriptTag_chars:
  "occurrences (cu ''</head>'') farcadeScriptTag = 0"
  "occurrences farcadeScriptTag farcadeScriptTag = 1"
  "0x0A \<notin> set (cu ''</head>'')" "cu ''</head>'' \<noteq> []"
  "occurrences (cu ''</head>'') (cu ''<head>'') = 0"
  "occurrences (cu ''</head>'') (cu ''</head>'') = 1"
  "occurrences (cu ''</head>'') (cu ''</head'') = 0"
  "occurrences farcadeScriptTag (cu ''<head>'') = 0"
  "occurrences farcadeScriptTag (cu ''</head>'') = 0"
proof -
  show "occurrences (cu ''</head>'') farcadeScriptTag = 0"
    unfolding farcadeScriptTag_def occurrences_cu by code_simp
  show "occurrences farcadeScriptTag farcadeScriptTag = 1"
    unfolding farcadeScriptTag_def occurrences_cu by code_simp
  show "0x0A \<notin> set (cu ''</head>'')" "cu ''</head>'' \<noteq> []" by (simp_all add: cu_def)
  show "occurrences (cu ''</head>'') (cu ''<head>'') = 0"
    "occurrences (cu ''</head>'') (cu ''</head>'') = 1"
    "occurrences (cu ''</head>'') (cu ''</head'') = 0"
    unfolding occurrences_cu by code_simp+
  show "occurrences farcadeScriptTag (cu ''<head>'') = 0"
    "occurrences farcadeScriptTag (cu ''</head>'') = 0"
    unfolding farcadeScriptTag_def occurrences_cu by code_simp+
qed

lemma patchedDoc_markers: "occurrences (cu ''</head>'') patchedDoc = 1"
proof -
  have "occurrences (cu ''</head>'') (cu ''<head>'' @ 0x0A # (farcadeScriptTag @ 0x0A # cu ''</head>''))
     = occurrences (cu ''</head>'') (cu ''<head>'')
       + occurrences (cu ''</head>'') (farcadeScriptTag @ 0x0A # cu ''</head>'')"
    by (rule occurrences_sep[OF farcadeScriptTag_chars(3,4)])
  moreover have "occurrences (cu ''</head>'') (farcadeScriptTag @ 0x0A # cu ''</head>'')
     = occurrences (cu ''</head>'') farcadeScriptTag + occurrences (cu ''</head>'') (cu ''</head>'')"
    by (rule occurrences_sep[OF farcadeScriptTag_chars(3,4)])
  ultimately show ?thesis by (simp add: patchedDoc_def farcadeScriptTag_chars)
qed

lemma patchedDoc_first:
  "\<not> includes_str ((cu ''<head>'' @ [0x0A] @ farcadeScriptTag @ [0x0A]) @ cu ''</head'') (cu ''</head>'')"
proof -
  have "occurrences (cu ''</head>'') (cu ''<head>'' @ 0x0A # (farcadeScriptTag @ 0x0A # cu ''</head''))
     = occurrences (cu ''</head>'') (cu ''<head>'')
       + occurrences (cu ''</head>'') (farcadeScriptTag @ 0x0A # cu ''</head'')"
    by (rule occurrences_sep[OF farcadeScriptTag_chars(3,4)])
  moreover have "occurrences (cu ''</head>'') (farcadeScriptTag @ 0x0A # cu ''</head'')
     = occurrences (cu ''</head>'') farcadeScriptTag + occurrences (cu ''</head>'') (cu ''</head'')"
    by (rule occurrences_sep[OF farcadeScriptTag_chars(3,4)])
  ultimately have "occurrences (cu ''</head>'')
      ((cu ''<head>'' @ [0x0A] @ farcadeScriptTag @ [0x0A]) @ cu ''</head'') = 0"
    by (simp add: farcadeScriptTag_chars)
  then show ?thesis by (simp add: occurrences_zero_iff)
qed

lemma patchedDoc_patched:
  "injectFarcadeSDK patchedDoc
     = cu ''<head>'' @ 0x0A # (farcadeScriptTag @ 0x0A # (farcadeScriptTag @ 0x0A # cu ''</head>''))"
  using injectFarcadeSDK_first[OF patchedDoc_first, of "[]"] by (simp add: patchedDoc_def)

section \<open>Sample documents\<close>

lemma noHeadDoc_no_head: "\<not> includes_str noHeadDoc (cu ''</head>'')"
  unfolding noHeadDoc_def includes_str_cu by code_simp

lemma noHeadDoc_event: "exec phaserGameInstancePattern noHeadDoc \<noteq> None"
  by code_simp

lemma injectEventHandlers_changes:
  assumes "exec phaserGameInstancePattern d \<noteq> None"
  shows "injectEventHandlers d \<noteq> d"
proof -
  from assms obtain b segs a where e: "exec phaserGameInstancePattern d = Some (b, segs, a)" by auto
  from exec_Some[OF e] have "d = b @ concat segs @ a" by simp
  moreover have "injectEventHandlers d = b @ concat segs @ eventHandlersInjection @ a"
    using e by (simp add: injectEventHandlers_def replaceFn_append)
  ultimately have "length (injectEventHandlers d) = length d + length eventHandlersInjection"
    by (metis length_append add.assoc add.commute)
  then show ?thesis using injection_ends(5) by auto
qed

lemma exec_group_Lit_None: "exec [Open, Lit l, Close] s = None \<longleftrightarrow> \<not> includes_str s l"
  by (induction s) (auto split: option.splits)

lemma phaser_None:
  "exec phaserGameInstancePattern (cu s) = None
     \<longleftrightarrow> \<not> includes_str s ''const game = new Phaser.Game(config);''"
  unfolding phaserGameInstancePattern_def exec_group_Lit_None includes_str_cu ..

lemma plainDoc_facts:
  "\<not> includes_str plainDoc (cu ''</head>'')"
  "exec showTitleScreenPattern plainDoc = None"
  "exec gameOverScreenPattern_remix plainDoc = None"
  "exec alternativePattern plainDoc = None"
  "exec endOfMethodPattern plainDoc = None"
  "exec phaserGameInstancePattern plainDoc = None"
  "exec gameOverScreenPattern_part0 plainDoc = None"
  "exec fallbackPattern plainDoc = None"
  by code_simp+

lemma logic_remix_no_anchor:
  assumes "exec showTitleScreenPattern html = None" "exec gameOverScreenPattern_remix html = None"
    "exec alternativePattern html = None" "exec endOfMethodPattern html = None"
    "exec phaserGameInstancePattern html = None"
  shows "injectFarcadeGameLogic_remix html = html"
  using assms
  by (simp add: injectFarcadeGameLogic_remix_def injectReady_def injectGameOver_remix_def
      injectAlternative_def injectEndOfMethod_def injectEventHandlers_def replaceFn_def)

lemma logic_part0_no_anchor:
  assumes "exec showTitleScreenPattern html = None" "exec gameOverScreenPattern_part0 html = None"
    "exec fallbackPattern html = None" "exec phaserGameInstancePattern html = None"
  shows "injectFarcadeGameLogic_part0 html = html"
  using assms
  by (simp add: injectFarcadeGameLogic_part0_def injectReady_def injectGameOver_part0_def
      injectFallback_def injectEventHandlers_def replaceFn_def)

lemma noHeadDoc_facts:
  "exec showTitleScreenPattern noHeadDoc = None"
  "exec gameOverScreenPattern_remix noHeadDoc = None"
  "exec alternativePattern noHeadDoc = None"
  "exec endOfMethodPattern noHeadDoc = None"
  "exec gameOverScreenPattern_part0 noHeadDoc = None"
  "exec fallbackPattern noHeadDoc = None"
  by code_simp+

lemma primaryDoc_matches:
  "map_option (\<lambda>(b, segs, a). (b, concat segs, a)) (exec gameOverScreenPattern_remix primaryDoc)
     = Some ([], primaryDoc, [])"
  "map_option (\<lambda>(b, segs, a). (b, concat segs, a)) (exec gameOverScreenPattern_part0 primaryDoc)
     = Some ([], primaryDoc, [])"
  "exec showTitleScreenPattern primaryDoc = None"
  by code_simp+

lemma primaryDoc_no_head: "\<not> includes_str primaryDoc (cu ''</head>'')"
  unfolding primaryDoc_def includes_str_cu by code_simp

lemma primary_hooks_differ: "gameOverInjection_remix \<noteq> gameOverInjection_part0"
proof
  assume "gameOverInjection_remix = gameOverInjection_part0"
  then have "occurrences (cu ''delayedCall(4000, '') gameOverInjection_remix
     = occurrences (cu ''delayedCall(4000, '') gameOverInjection_part0" by simp
  moreover have "occurrences (cu ''delayedCall(4000, '') gameOverInjection_remix = 1"
    unfolding gameOverInjection_remix_def by (subst occurrences_lines, simp, simp, simp, code_simp)
  moreover have "occurrences (cu ''delayedCall(4000, '') gameOverInjection_part0 = 0"
    unfolding gameOverInjection_part0_def by (subst occurrences_lines, simp, simp, simp, code_simp)
  ultimately show False by simp
qed

lemma primaryDoc_remix_hook:
  "injectFarcadeGameLogic_remix (injectFarcadeSDK primaryDoc) = primaryDoc @ gameOverInjection_remix"
proof -
  have s: "injectFarcadeSDK primaryDoc = primaryDoc"
    by (rule injectFarcadeSDK_no_head[OF primaryDoc_no_head])
  have r: "injectReady primaryDoc = primaryDoc"
    using primaryDoc_matches(3) by (simp add: injectReady_def replaceFn_def)
  from primaryDoc_matches(1) obtain segs where
    e: "exec gameOverScreenPattern_remix primaryDoc = Some ([], segs, [])" "concat segs = primaryDoc"
    by auto
  have g: "injectGameOver_remix primaryDoc = primaryDoc @ gameOverInjection_remix"
    using e by (simp add: injectGameOver_remix_def replaceFn_append)
  have i: "includes_str (primaryDoc @ gameOverInjection_remix) gameOverCall"
    using occurrences_injectGameOver_remix[of primaryDoc] e(1)
      occurrences_zero_iff[of gameOverCall "primaryDoc @ gameOverInjection_remix"]
    by (simp add: g)
  have "exec phaserGameInstancePattern (primaryDoc @ gameOverInjection_remix) = None"
    unfolding primaryDoc_def gameOverInjection_remix_def cu_append[symmetric] phaser_None
    by code_simp
  then have h: "injectEventHandlers (primaryDoc @ gameOverInjection_remix)
      = primaryDoc @ gameOverInjection_remix"
    by (simp add: injectEventHandlers_def replaceFn_def)
  show ?thesis
    using i by (simp add: injectFarcadeGameLogic_remix_def s r g h injectAlternative_def
        injectEndOfMethod_def)
qed

lemma primaryDoc_part0_hook:
  "injectFarcadeGameLogic_part0 (injectFarcadeSDK primaryDoc) = primaryDoc @ gameOverInjection_part0"
proof -
  have s: "injectFarcadeSDK primaryDoc = primaryDoc"
    by (rule injectFarcadeSDK_no_head[OF primaryDoc_no_head])
  have r: "injectReady primaryDoc = primaryDoc"
    using primaryDoc_matches(3) by (simp add: injectReady_def replaceFn_def)
  from primaryDoc_matches(2) obtain segs where
    e: "exec gameOverScreenPattern_part0 primaryDoc = Some ([], segs, [])" "concat segs = primaryDoc"
    by auto
  have g: "injectGameOver_part0 primaryDoc = primaryDoc @ gameOverInjection_part0"
    using e by (simp add: injectGameOver_part0_def replaceFn_append)
  have i: "includes_str (primaryDoc @ gameOverInjection_part0) gameOverCall"
    using occurrences_injectGameOver_part0[of primaryDoc] e(1)
      occurrences_zero_iff[of gameOverCall "primaryDoc @ gameOverInjection_part0"]
    by (simp add: g)
  have "exec phaserGameInstancePattern (primaryDoc @ gameOverInjection_part0) = None"
    unfolding primaryDoc_def gameOverInjection_part0_def cu_append[symmetric] phaser_None
    by code_simp
  then have h: "injectEventHandlers (primaryDoc @ gameOverInjection_part0)
      = primaryDoc @ gameOverInjection_part0"
    by (simp add: injectEventHandlers_def replaceFn_def)
  show ?thesis
    using i by (simp add: injectFarcadeGameLogic_part0_def s r g h injectFallback_def)
qed

lemma delays:
  "occurrences (cu ''delayedCall('') gameOverInjection_remix = 1"
  "occurrences (cu ''delayedCall(4000, '') gameOverInjection_remix = 1"
  "occurrences (cu ''delayedCall('') alternativeInjection = 1"
  "occurrences (cu ''delayedCall(4000, '') alternativeInjection = 1"
  "occurrences (cu ''delayedCall('') endOfMethodInjection = 1"
  "occurrences (cu ''delayedCall(4000, '') endOfMethodInjection = 1"
  "occurrences (cu ''delayedCall('') gameOverInjection_part0 = 1"
  "occurrences (cu ''delayedCall(1000, '') gameOverInjection_part0 = 1"
  "occurrences (cu ''delayedCall('') fallbackInjection = 1"
  "occurrences (cu ''delayedCall(1000, '') fallbackInjection = 1"
  unfolding gameOverInjection_remix_def alternativeInjection_def endOfMethodInjection_def
    gameOverInjection_part0_def fallbackInjection_def
  by (subst occurrences_lines, simp, simp, simp, code_simp)+

lemma rules_skip:
  "exec showTitleScreenPattern d = None \<Longrightarrow> injectReady d = d"
  "exec gameOverScreenPattern_remix d = None \<Longrightarrow> injectGameOver_remix d = d"
  "exec alternativePattern d = None \<Longrightarrow> injectAlternative d = d"
  "exec endOfMethodPattern d = None \<Longrightarrow> injectEndOfMethod d = d"
  "exec phaserGameInstancePattern d = None \<Longrightarrow> injectEventHandlers d = d"
  "exec gameOverScreenPattern_part0 d = None \<Longrightarrow> injectGameOver_part0 d = d"
  "exec fallbackPattern d = None \<Longrightarrow> injectFallback d = d"
  by (simp_all add: injectReady_def injectGameOver_remix_def injectAlternative_def
      injectEndOfMethod_def injectEventHandlers_def injectGameOver_part0_def injectFallback_def
      replaceFn_def)

section \<open>The run: reading, patching, writing\<close>

lemma paths_differ: "indexTemplate \<noteq> outputFile"
  by (simp add: indexTemplate_def outputFile_def)

lemma integrateFarcade_read_failure:
  assumes "readFileSync w indexTemplate = Inl (Error message)"
  shows "integrateFarcade logic w =
     (Inr (), w\<lparr>stderr := stderr w @ [''Error reading file '' @ indexTemplate @ '': '' @ message,
                                       ''Could not read HTML template. Aborting.'']\<rparr>)"
  using assms by (simp add: integrateFarcade_def readFile_def)

lemma integrateFarcade_written:
  assumes "readFileSync w indexTemplate = Inr html" "html \<noteq> []" "writeFault w outputFile = None"
  shows "integrateFarcade logic w =
     (Inr (), w\<lparr>files := (files w)(outputFile \<mapsto> logic (injectFarcadeSDK html))\<rparr>)"
  using assms by (simp add: integrateFarcade_def readFile_def writeFile_def writeFileSync_def Let_def)

lemma integrateFarcade_write_failure:
  assumes "readFileSync w indexTemplate = Inr html" "html \<noteq> []"
    "writeFault w outputFile = Some (message, residue)"
  shows "integrateFarcade logic w =
     (Inr (), w\<lparr>files := (files w)(outputFile := residue),
               stderr := stderr w @ [''Error writing file '' @ outputFile @ '': '' @ message]\<rparr>)"
  using assms by (simp add: integrateFarcade_def readFile_def writeFile_def writeFileSync_def Let_def)

lemma integrateFarcade_returns: "fst (integrateFarcade logic w) = Inr ()"
  by (simp add: integrateFarcade_def readFile_def writeFile_def writeFileSync_def Let_def
      split: sum.splits option.splits prod.splits js_error.splits)

lemma integrateFarcade_empty:
  assumes "readFileSync w indexTemplate = Inr []"
  shows "integrateFarcade logic w =
     (Inr (), w\<lparr>stderr := stderr w @ [''Could not read HTML template. Aborting.'']\<rparr>)"
  using assms by (simp add: integrateFarcade_def readFile_def)

section \<open>Where the texts go in\<close>



lemma insertedOneOf_same: "insertedOneOf texts d d"
  by (simp add: insertedOneOf_def)




lemma fired_includes:
  "injectGameOver_remix d \<noteq> d \<Longrightarrow> includes_str (injectGameOver_remix d) gameOverCall"
  "injectAlternative d \<noteq> d \<Longrightarrow> includes_str (injectAlternative d) gameOverCall"
  "injectGameOver_part0 d \<noteq> d \<Longrightarrow> includes_str (injectGameOver_part0 d) gameOverCall"
proof -
  show "includes_str (injectGameOver_remix d) gameOverCall" if "injectGameOver_remix d \<noteq> d"
  proof -
    from that have "exec gameOverScreenPattern_remix d \<noteq> None" using rules_skip(2) by blast
    then obtain r where "exec gameOverScreenPattern_remix d = Some r" by auto
    then have "occurrences gameOverCall (injectGameOver_remix d) = occurrences gameOverCall d + 1"
      by (simp add: occurrences_injectGameOver_remix)
    then have "occurrences gameOverCall (injectGameOver_remix d) \<noteq> 0" by simp
    then show ?thesis by (simp add: occurrences_zero_iff)
  qed
  show "includes_str (injectGameOver_part0 d) gameOverCall" if "injectGameOver_part0 d \<noteq> d"
  proof -
    from that have "exec gameOverScreenPattern_part0 d \<noteq> None" using rules_skip(6) by blast
    then obtain r where "exec gameOverScreenPattern_part0 d = Some r" by auto
    then have "occurrences gameOverCall (injectGameOver_part0 d) = occurrences gameOverCall d + 1"
      by (simp add: occurrences_injectGameOver_part0)
    then have "occurrences gameOverCall (injectGameOver_part0 d) \<noteq> 0" by simp
    then show ?thesis by (simp add: occurrences_zero_iff)
  qed
  show "includes_str (injectAlternative d) gameOverCall" if "injectAlternative d \<noteq> d"
  proof -
    from that have "\<not> includes_str d gameOverCall \<and> exec alternativePattern d \<noteq> None"
      by (auto simp: injectAlternative_def replaceFn_def split: if_splits option.splits)
    then obtain r where "occurrences gameOverCall d = 0" "exec alternativePattern d = Some r"
      by (auto simp: occurrences_zero_iff)
    then have "occurrences gameOverCall (injectAlternative d) = 1"
      by (simp add: occurrences_injectAlternative)
    then have "occurrences gameOverCall (injectAlternative d) \<noteq> 0" by simp
    then show ?thesis by (simp add: occurrences_zero_iff)
  qed
qed

lemma guarded_skip:
  "includes_str d gameOverCall \<Longrightarrow> injectAlternative d = d"
  "includes_str d gameOverCall \<Longrightarrow> injectEndOfMethod d = d"
  "includes_str d gameOverCall \<Longrightarrow> injectFallback d = d"
  by (simp_all add: injectAlternative_def injectEndOfMethod_def injectFallback_def)





section \<open>The first match\<close>

text \<open>
  \<^verbatim>\<open>exec\<close> returns the match at the first position at which the pattern matches, so a
  replacement rewrites the document there and keeps everything after that match.
\<close>

lemma firstMatchAt_exec:
  assumes "firstMatchAt re s i segs"
  shows "exec re s = Some (take i s, segs, drop (i + length (concat segs)) s)"
proof -
  from assms have i: "i \<le> length s" and m: "matchHere re (drop i s) = Some segs"
    and n: "\<forall>j<i. matchHere re (drop j s) = None" by (auto simp: firstMatchAt_def)
  have "\<forall>j<length (take i s). matchHere re (drop j (take i s @ drop i s)) = None"
    using n i by simp
  from exec_first[OF this m] show ?thesis by (simp add: add.commute)
qed

lemma exec_firstMatchAt:
  assumes "exec re s = Some (b, segs, a)"
  shows "firstMatchAt re s (length b) segs"
proof -
  from exec_Some[OF assms] have s: "s = b @ concat segs @ a"
    and m: "matchHere re (concat segs @ a) = Some segs"
    and n: "\<forall>i<length b. matchHere re (drop i s) = None" by auto
  have "length b \<le> length s" by (subst s) simp
  moreover have "drop (length b) s = concat segs @ a" by (subst s) simp
  ultimately show ?thesis unfolding firstMatchAt_def using m n by simp
qed

lemma replaceFn_first:
  "firstMatchAt re s i segs \<Longrightarrow>
     replaceFn s re f = take i s @ f (concat segs) (captures re segs) @ drop (i + length (concat segs)) s"
  by (simp add: replaceFn_def firstMatchAt_exec)

lemma injectFarcadeSDK_firstMatch:
  assumes "firstMatchAt headPattern d i segs"
  shows "injectFarcadeSDK d =
     take i d @ farcadeScriptTag @ [0x0A] @ concat segs @ drop (i + length (concat segs)) d"
proof -
  from assms have "matchHere headPattern (drop i d) = Some segs" by (simp add: firstMatchAt_def)
  then have s: "concat segs = cu ''</head>''"
    by (auto simp: headPattern_def split: if_splits)
  show ?thesis
    using getSubstitution_plain[OF sdk_replacement_plain]
    by (simp add: injectFarcadeSDK_def replaceStr_def firstMatchAt_exec[OF assms] s cu_newline)
qed

lemma injectEndOfMethod_firstMatch:
  assumes "firstMatchAt endOfMethodPattern d i segs"
  shows "\<exists>methodBody closingBrace.
     captures endOfMethodPattern segs = [methodBody, closingBrace]
     \<and> concat segs = methodBody @ closingBrace
     \<and> injectEndOfMethod d =
         (if includes_str d gameOverCall then d
          else take i d @ methodBody @ endOfMethodInjection @ closingBrace
               @ drop (i + length (concat segs)) d)"
proof -
  from assms have "matchHere endOfMethodPattern (drop i d) = Some segs"
    by (simp add: firstMatchAt_def)
  from endOfMethod_captures[OF this] obtain methodBody closingBrace where
    c: "captures endOfMethodPattern segs = [methodBody, closingBrace]"
       "concat segs = methodBody @ closingBrace" by blast
  have "injectEndOfMethod d =
         (if includes_str d gameOverCall then d
          else take i d @ methodBody @ endOfMethodInjection @ closingBrace
               @ drop (i + length (concat segs)) d)"
    by (simp add: injectEndOfMethod_def replaceFn_first[OF assms] c(1))
  with c show ?thesis by blast
qed

lemma exec_append: "exec ps s \<noteq> None \<Longrightarrow> exec ps (s @ t) \<noteq> None"
proof -
  assume "exec ps s \<noteq> None"
  then obtain u segs v where "s = u @ concat segs @ v" "list_all2 conforms ps segs"
    unfolding exec_matches_iff by blast
  then have "s @ t = u @ concat segs @ (v @ t) \<and> list_all2 conforms ps segs" by simp
  then show ?thesis unfolding exec_matches_iff by blast
qed

lemma twoAnchorsDoc_facts:
  "occurrences (cu ''this.playButton.removeAllListeners();'') twoAnchorsDoc = 2"
  "\<not> includes_str twoAnchorsDoc (cu ''</head>'')"
  "\<not> includes_str twoAnchorsDoc gameOverCall"
  unfolding twoAnchorsDoc_def gameOverCall_def occurrences_cu includes_str_cu by code_simp+

lemma twoAnchorsDoc_anchors:
  "exec alternativePattern twoAnchorsDoc \<noteq> None"
  "exec fallbackPattern twoAnchorsDoc \<noteq> None"
  "exec showTitleScreenPattern twoAnchorsDoc = None"
  by code_simp+

lemma twoAnchorsDoc_primary:
  "map_option (\<lambda>(b, segs, a). (b @ concat segs, a)) (exec gameOverScreenPattern_remix twoAnchorsDoc)
     = Some (twoAnchorsDoc, [])"
  "map_option (\<lambda>(b, segs, a). (b @ concat segs, a)) (exec gameOverScreenPattern_part0 twoAnchorsDoc)
     = Some (twoAnchorsDoc, [])"
  by code_simp+

lemma twoAnchorsDoc_hooks:
  "injectGameOver_remix twoAnchorsDoc = twoAnchorsDoc @ gameOverInjection_remix"
  "injectGameOver_part0 twoAnchorsDoc = twoAnchorsDoc @ gameOverInjection_part0"
proof -
  from twoAnchorsDoc_primary(1) obtain b segs where
    "exec gameOverScreenPattern_remix twoAnchorsDoc = Some (b, segs, [])"
    "b @ concat segs = twoAnchorsDoc" by auto
  then show "injectGameOver_remix twoAnchorsDoc = twoAnchorsDoc @ gameOverInjection_remix"
    by (simp add: injectGameOver_remix_def replaceFn_append append_assoc[symmetric] del: append_assoc)
  from twoAnchorsDoc_primary(2) obtain b segs where
    "exec gameOverScreenPattern_part0 twoAnchorsDoc = Some (b, segs, [])"
    "b @ concat segs = twoAnchorsDoc" by auto
  then show "injectGameOver_part0 twoAnchorsDoc = twoAnchorsDoc @ gameOverInjection_part0"
    by (simp add: injectGameOver_part0_def replaceFn_append append_assoc[symmetric] del: append_assoc)
qed

lemma firstMatchAt_0: "matchHere re s = Some segs \<Longrightarrow> firstMatchAt re s 0 segs"
  by (simp add: firstMatchAt_def)

lemma twoAnchorsDoc_run:
  "injectFarcadeGameLogic_remix (injectFarcadeSDK twoAnchorsDoc)
     = twoAnchorsDoc @ gameOverInjection_remix"
  "injectFarcadeGameLogic_part0 (injectFarcadeSDK twoAnchorsDoc)
     = twoAnchorsDoc @ gameOverInjection_part0"
proof -
  have s: "injectFarcadeSDK twoAnchorsDoc = twoAnchorsDoc"
    by (rule injectFarcadeSDK_no_head[OF twoAnchorsDoc_facts(2)])
  have r: "injectReady twoAnchorsDoc = twoAnchorsDoc"
    by (rule rules_skip(1)[OF twoAnchorsDoc_anchors(3)])
  have ir: "includes_str (twoAnchorsDoc @ gameOverInjection_remix) gameOverCall"
    using fired_includes(1)[of twoAnchorsDoc] by (simp add: twoAnchorsDoc_hooks injection_ends)
  have ip: "includes_str (twoAnchorsDoc @ gameOverInjection_part0) gameOverCall"
    using fired_includes(3)[of twoAnchorsDoc] by (simp add: twoAnchorsDoc_hooks injection_ends)
  have "exec phaserGameInstancePattern (twoAnchorsDoc @ gameOverInjection_remix) = None"
    unfolding twoAnchorsDoc_def gameOverInjection_remix_def cu_append[symmetric] phaser_None
    by code_simp
  then have er: "injectEventHandlers (twoAnchorsDoc @ gameOverInjection_remix)
      = twoAnchorsDoc @ gameOverInjection_remix" by (rule rules_skip)
  have "exec phaserGameInstancePattern (twoAnchorsDoc @ gameOverInjection_part0) = None"
    unfolding twoAnchorsDoc_def gameOverInjection_part0_def cu_append[symmetric] phaser_None
    by code_simp
  then have ep: "injectEventHandlers (twoAnchorsDoc @ gameOverInjection_part0)
      = twoAnchorsDoc @ gameOverInjection_part0" by (rule rules_skip)
  show "injectFarcadeGameLogic_remix (injectFarcadeSDK twoAnchorsDoc)
     = twoAnchorsDoc @ gameOverInjection_remix"
    by (simp add: injectFarcadeGameLogic_remix_def s r twoAnchorsDoc_hooks guarded_skip[OF ir] er)
  show "injectFarcadeGameLogic_part0 (injectFarcadeSDK twoAnchorsDoc)
     = twoAnchorsDoc @ gameOverInjection_part0"
    by (simp add: injectFarcadeGameLogic_part0_def s r twoAnchorsDoc_hooks guarded_skip[OF ip] ep)
qed

section \<open>When the two scripts agree\<close>

text \<open>
  The digit 4 occurs once in every game-over text of \<^verbatim>\<open>remixIntegration.js\<close> and in no
  other injected text; the digit 1 occurs once in every game-over text of the second
  script and in no other. Counting these digits tells which rules have put in a text.
\<close>

lemma count_list_cu: "count_list (cu s) (of_char c :: 16 word) = count_list s c"
  by (induction s) (simp_all add: cu_def of_char_unit16_eq)

lemma digit_units: "(0x34 :: 16 word) = of_char (CHR ''4'')" "(0x31 :: 16 word) = of_char (CHR ''1'')"
  by simp_all

lemma fours:
  "count_list gameOverInjection_remix 0x34 = 1"
  "count_list alternativeInjection 0x34 = 1"
  "count_list endOfMethodInjection 0x34 = 1"
  "count_list gameOverInjection_part0 0x34 = 0"
  "count_list fallbackInjection 0x34 = 0"
  "count_list eventHandlersInjection 0x34 = 0"
  unfolding gameOverInjection_remix_def alternativeInjection_def endOfMethodInjection_def
    gameOverInjection_part0_def fallbackInjection_def eventHandlersInjection_def
    digit_units count_list_cu
  by code_simp+

lemma ones:
  "count_list gameOverInjection_remix 0x31 = 0"
  "count_list alternativeInjection 0x31 = 0"
  "count_list endOfMethodInjection 0x31 = 0"
  "count_list gameOverInjection_part0 0x31 = 1"
  "count_list fallbackInjection 0x31 = 1"
  "count_list eventHandlersInjection 0x31 = 0"
  unfolding gameOverInjection_remix_def alternativeInjection_def endOfMethodInjection_def
    gameOverInjection_part0_def fallbackInjection_def eventHandlersInjection_def
    digit_units count_list_cu
  by code_simp+

lemma count_replaceFn:
  "count_list (replaceFn x re (\<lambda>match caps. match @ ins)) c =
     count_list x c + (if exec re x = None then 0 else count_list ins c)"
proof (cases "exec re x")
  case None
  then show ?thesis by (simp add: replaceFn_append)
next
  case (Some r)
  obtain b segs a where r: "r = (b, segs, a)" by (cases r) auto
  from exec_Some[OF Some[unfolded r]] have "x = b @ concat segs @ a" by simp
  then have "count_list x c = count_list b c + count_list (concat segs) c + count_list a c"
    by (metis count_list_append add.assoc)
  then show ?thesis using Some r by (simp add: replaceFn_append)
qed

lemma count_injectEndOfMethod:
  "count_list (injectEndOfMethod x) c =
     count_list x c + (if \<not> includes_str x gameOverCall \<and> exec endOfMethodPattern x \<noteq> None
                       then count_list endOfMethodInjection c else 0)"
proof (cases "\<not> includes_str x gameOverCall \<and> exec endOfMethodPattern x \<noteq> None")
  case True
  then obtain b segs a where e: "exec endOfMethodPattern x = Some (b, segs, a)" by auto
  from injectEndOfMethod_fires[OF _ e] True obtain methodBody closingBrace where
    f: "x = b @ methodBody @ closingBrace @ a"
       "injectEndOfMethod x = b @ methodBody @ endOfMethodInjection @ closingBrace @ a" by blast
  have "count_list x c = count_list b c + count_list methodBody c + count_list closingBrace c
      + count_list a c" by (subst f(1)) simp
  moreover have "count_list (injectEndOfMethod x) c = count_list b c + count_list methodBody c
      + count_list endOfMethodInjection c + count_list closingBrace c + count_list a c"
    by (subst f(2)) simp
  ultimately show ?thesis using True by simp
next
  case False
  then have "injectEndOfMethod x = x"
    by (auto simp: injectEndOfMethod_def replaceFn_def split: option.splits)
  then show ?thesis using False by auto
qed

lemma unchanged_iff:
  "injectGameOver_remix x = x \<longleftrightarrow> exec gameOverScreenPattern_remix x = None"
  "injectAlternative x = x \<longleftrightarrow> includes_str x gameOverCall \<or> exec alternativePattern x = None"
  "injectEndOfMethod x = x \<longleftrightarrow> includes_str x gameOverCall \<or> exec endOfMethodPattern x = None"
  "injectGameOver_part0 x = x \<longleftrightarrow> exec gameOverScreenPattern_part0 x = None"
  "injectFallback x = x \<longleftrightarrow> includes_str x gameOverCall \<or> exec fallbackPattern x = None"
proof -
  show "injectGameOver_remix x = x \<longleftrightarrow> exec gameOverScreenPattern_remix x = None"
  proof
    assume u: "injectGameOver_remix x = x"
    have "count_list (injectGameOver_remix x) 0x34 = count_list x 0x34
        + (if exec gameOverScreenPattern_remix x = None then 0 else 1)"
      unfolding injectGameOver_remix_def count_replaceFn fours ..
    with u show "exec gameOverScreenPattern_remix x = None" by (simp split: if_splits)
  qed (rule rules_skip)
  show "injectGameOver_part0 x = x \<longleftrightarrow> exec gameOverScreenPattern_part0 x = None"
  proof
    assume u: "injectGameOver_part0 x = x"
    have "count_list (injectGameOver_part0 x) 0x31 = count_list x 0x31
        + (if exec gameOverScreenPattern_part0 x = None then 0 else 1)"
      unfolding injectGameOver_part0_def count_replaceFn ones ..
    with u show "exec gameOverScreenPattern_part0 x = None" by (simp split: if_splits)
  qed (rule rules_skip)
  show "injectAlternative x = x \<longleftrightarrow> includes_str x gameOverCall \<or> exec alternativePattern x = None"
  proof
    assume u: "injectAlternative x = x"
    show "includes_str x gameOverCall \<or> exec alternativePattern x = None"
    proof (rule ccontr)
      assume n: "\<not> (includes_str x gameOverCall \<or> exec alternativePattern x = None)"
      then have "injectAlternative x = replaceFn x alternativePattern (\<lambda>match caps. match @ alternativeInjection)"
        by (simp add: injectAlternative_def)
      then have "count_list (injectAlternative x) 0x34 = count_list x 0x34 + 1"
        using n by (simp add: count_replaceFn fours)
      with u show False by simp
    qed
  next
    assume "includes_str x gameOverCall \<or> exec alternativePattern x = None"
    then show "injectAlternative x = x"
      by (auto simp: injectAlternative_def replaceFn_def)
  qed
  show "injectFallback x = x \<longleftrightarrow> includes_str x gameOverCall \<or> exec fallbackPattern x = None"
  proof
    assume u: "injectFallback x = x"
    show "includes_str x gameOverCall \<or> exec fallbackPattern x = None"
    proof (rule ccontr)
      assume n: "\<not> (includes_str x gameOverCall \<or> exec fallbackPattern x = None)"
      then have "injectFallback x = replaceFn x fallbackPattern (\<lambda>match caps. match @ fallbackInjection)"
        by (simp add: injectFallback_def)
      then have "count_list (injectFallback x) 0x31 = count_list x 0x31 + 1"
        using n by (simp add: count_replaceFn ones)
      with u show False by simp
    qed
  next
    assume "includes_str x gameOverCall \<or> exec fallbackPattern x = None"
    then show "injectFallback x = x"
      by (auto simp: injectFallback_def replaceFn_def)
  qed
  show "injectEndOfMethod x = x \<longleftrightarrow> includes_str x gameOverCall \<or> exec endOfMethodPattern x = None"
  proof
    assume u: "injectEndOfMethod x = x"
    show "includes_str x gameOverCall \<or> exec endOfMethodPattern x = None"
    proof (rule ccontr)
      assume n: "\<not> (includes_str x gameOverCall \<or> exec endOfMethodPattern x = None)"
      then have "count_list (injectEndOfMethod x) 0x34 = count_list x 0x34 + 1"
        by (simp add: count_injectEndOfMethod fours)
      with u show False by simp
    qed
  next
    assume "includes_str x gameOverCall \<or> exec endOfMethodPattern x = None"
    then show "injectEndOfMethod x = x"
      by (auto simp: injectEndOfMethod_def replaceFn_def)
  qed
qed

lemma fours_rules:
  "count_list (injectGameOver_remix x) 0x34
     = count_list x 0x34 + (if injectGameOver_remix x = x then 0 else 1)"
  "count_list (injectAlternative x) 0x34
     = count_list x 0x34 + (if injectAlternative x = x then 0 else 1)"
  "count_list (injectEndOfMethod x) 0x34
     = count_list x 0x34 + (if injectEndOfMethod x = x then 0 else 1)"
  "count_list (injectGameOver_part0 x) 0x34 = count_list x 0x34"
  "count_list (injectFallback x) 0x34 = count_list x 0x34"
  "count_list (injectEventHandlers x) 0x34 = count_list x 0x34"
proof -
  show "count_list (injectGameOver_remix x) 0x34
     = count_list x 0x34 + (if injectGameOver_remix x = x then 0 else 1)"
    unfolding unchanged_iff unfolding injectGameOver_remix_def count_replaceFn fours ..
  show "count_list (injectAlternative x) 0x34
     = count_list x 0x34 + (if injectAlternative x = x then 0 else 1)"
    unfolding unchanged_iff by (simp add: injectAlternative_def count_replaceFn fours)
  show "count_list (injectEndOfMethod x) 0x34
     = count_list x 0x34 + (if injectEndOfMethod x = x then 0 else 1)"
    unfolding unchanged_iff by (simp add: count_injectEndOfMethod fours)
  show "count_list (injectGameOver_part0 x) 0x34 = count_list x 0x34"
    by (simp add: injectGameOver_part0_def count_replaceFn fours)
  show "count_list (injectFallback x) 0x34 = count_list x 0x34"
    by (simp add: injectFallback_def count_replaceFn fours)
  show "count_list (injectEventHandlers x) 0x34 = count_list x 0x34"
    by (simp add: injectEventHandlers_def count_replaceFn fours)
qed

lemma ones_rules:
  "count_list (injectGameOver_part0 x) 0x31
     = count_list x 0x31 + (if injectGameOver_part0 x = x then 0 else 1)"
  "count_list (injectFallback x) 0x31
     = count_list x 0x31 + (if injectFallback x = x then 0 else 1)"
  "count_list (injectGameOver_remix x) 0x31 = count_list x 0x31"
  "count_list (injectAlternative x) 0x31 = count_list x 0x31"
  "count_list (injectEndOfMethod x) 0x31 = count_list x 0x31"
  "count_list (injectEventHandlers x) 0x31 = count_list x 0x31"
proof -
  show "count_list (injectGameOver_part0 x) 0x31
     = count_list x 0x31 + (if injectGameOver_part0 x = x then 0 else 1)"
    unfolding unchanged_iff unfolding injectGameOver_part0_def count_replaceFn ones ..
  show "count_list (injectFallback x) 0x31
     = count_list x 0x31 + (if injectFallback x = x then 0 else 1)"
    unfolding unchanged_iff by (simp add: injectFallback_def count_replaceFn ones)
  show "count_list (injectGameOver_remix x) 0x31 = count_list x 0x31"
    by (simp add: injectGameOver_remix_def count_replaceFn ones)
  show "count_list (injectAlternative x) 0x31 = count_list x 0x31"
    by (simp add: injectAlternative_def count_replaceFn ones)
  show "count_list (injectEndOfMethod x) 0x31 = count_list x 0x31"
    by (simp add: count_injectEndOfMethod ones)
  show "count_list (injectEventHandlers x) 0x31 = count_list x 0x31"
    by (simp add: injectEventHandlers_def count_replaceFn ones)
qed

lemma scripts_agree_iff:
  "injectEventHandlers (injectEndOfMethod (injectAlternative (injectGameOver_remix d)))
     = injectEventHandlers (injectFallback (injectGameOver_part0 d))
   \<longleftrightarrow> injectGameOver_remix d = d \<and> injectAlternative d = d \<and> injectEndOfMethod d = d
       \<and> injectGameOver_part0 d = d \<and> injectFallback d = d"
proof
  assume "injectGameOver_remix d = d \<and> injectAlternative d = d \<and> injectEndOfMethod d = d
       \<and> injectGameOver_part0 d = d \<and> injectFallback d = d"
  then show "injectEventHandlers (injectEndOfMethod (injectAlternative (injectGameOver_remix d)))
     = injectEventHandlers (injectFallback (injectGameOver_part0 d))" by simp
next
  define d2 where "d2 = injectGameOver_remix d"
  define d3 where "d3 = injectAlternative d2"
  define d4 where "d4 = injectEndOfMethod d3"
  define e2 where "e2 = injectGameOver_part0 d"
  define e3 where "e3 = injectFallback e2"
  assume "injectEventHandlers (injectEndOfMethod (injectAlternative (injectGameOver_remix d)))
     = injectEventHandlers (injectFallback (injectGameOver_part0 d))"
  then have eq: "injectEventHandlers d4 = injectEventHandlers e3"
    by (simp add: d2_def d3_def d4_def e2_def e3_def)
  have r4: "count_list (injectEventHandlers d4) 0x34 = count_list d 0x34
      + (if d2 = d then 0 else 1) + (if d3 = d2 then 0 else 1) + (if d4 = d3 then 0 else 1)"
    unfolding d4_def d3_def d2_def by (simp only: fours_rules)
  have p4: "count_list (injectEventHandlers e3) 0x34 = count_list d 0x34"
    unfolding e3_def e2_def by (simp only: fours_rules)
  have p1: "count_list (injectEventHandlers e3) 0x31 = count_list d 0x31
      + (if e2 = d then 0 else 1) + (if e3 = e2 then 0 else 1)"
    unfolding e3_def e2_def by (simp only: ones_rules)
  have r1: "count_list (injectEventHandlers d4) 0x31 = count_list d 0x31"
    unfolding d4_def d3_def d2_def by (simp only: ones_rules)
  from eq r4 p4 have x: "d2 = d" "d3 = d2" "d4 = d3" by (simp_all split: if_splits)
  from eq r1 p1 have y: "e2 = d" "e3 = e2" by (simp_all split: if_splits)
  have 1: "injectGameOver_remix d = d" using x(1) unfolding d2_def .
  have 2: "injectAlternative d = d" using x(2) unfolding d3_def x(1) .
  have 3: "injectEndOfMethod d = d" using x(3) unfolding d4_def x(2) x(1) .
  have 4: "injectGameOver_part0 d = d" using y(1) unfolding e2_def .
  have 5: "injectFallback d = d" using y(2) unfolding e3_def y(1) .
  show "injectGameOver_remix d = d \<and> injectAlternative d = d \<and> injectEndOfMethod d = d
       \<and> injectGameOver_part0 d = d \<and> injectFallback d = d"
    by (intro conjI 1 2 3 4 5)
qed

section \<open>When a run changes nothing\<close>

text \<open>
  Every injected text is non-empty and every rule only inserts, so a run returns its
  document unchanged exactly when no rule fires.
\<close>

lemma inserted_length: "inserted s t \<Longrightarrow> length s \<le> length t"
  by (auto simp: inserted_def)

lemma inserted_same_length: "inserted s t \<Longrightarrow> length t = length s \<Longrightarrow> t = s"
  by (auto simp: inserted_def)

lemma unchanged_iff_shared:
  "injectReady x = x \<longleftrightarrow> exec showTitleScreenPattern x = None"
  "injectEventHandlers x = x \<longleftrightarrow> exec phaserGameInstancePattern x = None"
proof -
  have l: "length (replaceFn x re (\<lambda>match caps. match @ ins))
      = length x + (if exec re x = None then 0 else length ins)" for re ins
  proof (cases "exec re x")
    case None
    then show ?thesis by (simp add: replaceFn_append)
  next
    case (Some r)
    obtain b segs a where r: "r = (b, segs, a)" by (cases r) auto
    from exec_Some[OF Some[unfolded r]] have "x = b @ concat segs @ a" by simp
    then have "length x = length b + length (concat segs) + length a"
      by (metis length_append add.assoc)
    then show ?thesis using Some r by (simp add: replaceFn_append)
  qed
  show "injectReady x = x \<longleftrightarrow> exec showTitleScreenPattern x = None"
  proof
    assume u: "injectReady x = x"
    have "length (injectReady x) = length x
        + (if exec showTitleScreenPattern x = None then 0 else length readyInjection)"
      unfolding injectReady_def by (rule l)
    with u injection_ends(1) show "exec showTitleScreenPattern x = None"
      by (simp split: if_splits)
  qed (rule rules_skip)
  show "injectEventHandlers x = x \<longleftrightarrow> exec phaserGameInstancePattern x = None"
  proof
    assume u: "injectEventHandlers x = x"
    have "length (injectEventHandlers x) = length x
        + (if exec phaserGameInstancePattern x = None then 0 else length eventHandlersInjection)"
      unfolding injectEventHandlers_def by (rule l)
    with u injection_ends(5) show "exec phaserGameInstancePattern x = None"
      by (simp split: if_splits)
  qed (rule rules_skip)
qed

lemma chain_same:
  assumes "inserted d0 d1" "inserted d1 d2" "length d2 = length d0"
  shows "d1 = d0 \<and> d2 = d0"
proof -
  from inserted_length[OF assms(1)] inserted_length[OF assms(2)] assms(3)
  have "length d1 = length d0" "length d2 = length d1" by simp_all
  with inserted_same_length[OF assms(1)] inserted_same_length[OF assms(2)]
  show ?thesis by simp
qed

lemma logic_remix_unchanged_iff:
  "injectFarcadeGameLogic_remix html = html
   \<longleftrightarrow> exec showTitleScreenPattern html = None \<and> exec gameOverScreenPattern_remix html = None
       \<and> (includes_str html gameOverCall
           \<or> exec alternativePattern html = None \<and> exec endOfMethodPattern html = None)
       \<and> exec phaserGameInstancePattern html = None"
proof
  define d1 where "d1 = injectReady html"
  define d2 where "d2 = injectGameOver_remix d1"
  define d3 where "d3 = injectAlternative d2"
  define d4 where "d4 = injectEndOfMethod d3"
  define d5 where "d5 = injectEventHandlers d4"
  assume "injectFarcadeGameLogic_remix html = html"
  then have e: "d5 = html"
    by (simp add: injectFarcadeGameLogic_remix_def d1_def d2_def d3_def d4_def d5_def)
  have i: "inserted html d1" "inserted d1 d2" "inserted d2 d3" "inserted d3 d4" "inserted d4 d5"
    unfolding d1_def d2_def d3_def d4_def d5_def
    by (rule inserted_rules inserted_injectEndOfMethod)+
  note n = i[THEN inserted_length]
  from n e have l: "length d1 = length html" "length d2 = length d1" "length d3 = length d2"
    "length d4 = length d3" "length d5 = length d4" by simp_all
  have s1: "d1 = html" by (rule inserted_same_length[OF i(1) l(1)])
  have s2: "d2 = d1" by (rule inserted_same_length[OF i(2) l(2)])
  have s3: "d3 = d2" by (rule inserted_same_length[OF i(3) l(3)])
  have s4: "d4 = d3" by (rule inserted_same_length[OF i(4) l(4)])
  have s5: "d5 = d4" by (rule inserted_same_length[OF i(5) l(5)])
  have 1: "injectReady html = html" using s1 unfolding d1_def .
  have 2: "injectGameOver_remix html = html" using s2 unfolding d2_def s1 .
  have 3: "injectAlternative html = html" using s3 unfolding d3_def s2 s1 .
  have 4: "injectEndOfMethod html = html" using s4 unfolding d4_def s3 s2 s1 .
  have 5: "injectEventHandlers html = html" using s5 unfolding d5_def s4 s3 s2 s1 .
  from 1 2 3 4 5 show "exec showTitleScreenPattern html = None \<and> exec gameOverScreenPattern_remix html = None
       \<and> (includes_str html gameOverCall
           \<or> exec alternativePattern html = None \<and> exec endOfMethodPattern html = None)
       \<and> exec phaserGameInstancePattern html = None"
    unfolding unchanged_iff unchanged_iff_shared by auto
next
  assume a: "exec showTitleScreenPattern html = None \<and> exec gameOverScreenPattern_remix html = None
       \<and> (includes_str html gameOverCall
           \<or> exec alternativePattern html = None \<and> exec endOfMethodPattern html = None)
       \<and> exec phaserGameInstancePattern html = None"
  then have "injectReady html = html" "injectGameOver_remix html = html"
    "injectAlternative html = html" "injectEndOfMethod html = html" "injectEventHandlers html = html"
    unfolding unchanged_iff unchanged_iff_shared by auto
  then show "injectFarcadeGameLogic_remix html = html"
    by (simp add: injectFarcadeGameLogic_remix_def)
qed

lemma logic_part0_unchanged_iff:
  "injectFarcadeGameLogic_part0 html = html
   \<longleftrightarrow> exec showTitleScreenPattern html = None \<and> exec gameOverScreenPattern_part0 html = None
       \<and> (includes_str html gameOverCall \<or> exec fallbackPattern html = None)
       \<and> exec phaserGameInstancePattern html = None"
proof
  define d1 where "d1 = injectReady html"
  define d2 where "d2 = injectGameOver_part0 d1"
  define d3 where "d3 = injectFallback d2"
  define d4 where "d4 = injectEventHandlers d3"
  assume "injectFarcadeGameLogic_part0 html = html"
  then have e: "d4 = html"
    by (simp add: injectFarcadeGameLogic_part0_def d1_def d2_def d3_def d4_def)
  have i: "inserted html d1" "inserted d1 d2" "inserted d2 d3" "inserted d3 d4"
    unfolding d1_def d2_def d3_def d4_def
    by (rule inserted_rules)+
  note n = i[THEN inserted_length]
  from n e have l: "length d1 = length html" "length d2 = length d1" "length d3 = length d2"
    "length d4 = length d3" by simp_all
  have s1: "d1 = html" by (rule inserted_same_length[OF i(1) l(1)])
  have s2: "d2 = d1" by (rule inserted_same_length[OF i(2) l(2)])
  have s3: "d3 = d2" by (rule inserted_same_length[OF i(3) l(3)])
  have s4: "d4 = d3" by (rule inserted_same_length[OF i(4) l(4)])
  have 1: "injectReady html = html" using s1 unfolding d1_def .
  have 2: "injectGameOver_part0 html = html" using s2 unfolding d2_def s1 .
  have 3: "injectFallback html = html" using s3 unfolding d3_def s2 s1 .
  have 4: "injectEventHandlers html = html" using s4 unfolding d4_def s3 s2 s1 .
  from 1 2 3 4 show "exec showTitleScreenPattern html = None \<and> exec gameOverScreenPattern_part0 html = None
       \<and> (includes_str html gameOverCall \<or> exec fallbackPattern html = None)
       \<and> exec phaserGameInstancePattern html = None"
    unfolding unchanged_iff unchanged_iff_shared by auto
next
  assume a: "exec showTitleScreenPattern html = None \<and> exec gameOverScreenPattern_part0 html = None
       \<and> (includes_str html gameOverCall \<or> exec fallbackPattern html = None)
       \<and> exec phaserGameInstancePattern html = None"
  then have "injectReady html = html" "injectGameOver_part0 html = html"
    "injectFallback html = html" "injectEventHandlers html = html"
    unfolding unchanged_iff unchanged_iff_shared by auto
  then show "injectFarcadeGameLogic_part0 html = html"
    by (simp add: injectFarcadeGameLogic_part0_def)
qed

lemma guardedDoc_shared:
  "\<not> includes_str guardedDoc (cu ''</head>'')"
  "exec showTitleScreenPattern guardedDoc = None"
proof -
  show "\<not> includes_str guardedDoc (cu ''</head>'')"
    unfolding guardedDoc_def includes_str_cu by code_simp
  show "exec showTitleScreenPattern guardedDoc = None" by code_simp
qed

section \<open>The claims of the specification\<close>

text \<open>
  Each claim is given in words and then as a theorem about the definitions above. Where
  the scripts do otherwise than a claim says, a theorem first shows them doing so on a
  concrete input, and the claim follows as amended.
\<close>

subsection \<open>Read failure\<close>

text \<open>
  Against claim C6 (a failed load aborts the run with a read error): in a world without
  \<^verbatim>\<open>index.html\<close>, \<^verbatim>\<open>readFileSync\<close> throws, but \<^verbatim>\<open>readFile\<close> returns \<^verbatim>\<open>null\<close> and
  both runs return normally, as a run that succeeds does.
\<close>

theorem read_failure_not_surfaced:
  "readFileSync emptyWorld indexTemplate
     = Inl (Error (''ENOENT: no such file or directory, open 'index.html'' @ [CHR 0x27]))
   \<and> fst (readFile emptyWorld indexTemplate) = None
   \<and> fst (integrateFarcade_remix emptyWorld) = Inr ()
   \<and> fst (integrateFarcade_part0 emptyWorld) = Inr ()"
  by (simp add: readFileSync_def readFile_def emptyWorld_def indexTemplate_def
      integrateFarcade_remix_def integrateFarcade_part0_def integrateFarcade_def)

text \<open>
  Claim C6 as amended. Whenever loading the source document fails (the file is absent or
  unreadable), \<^verbatim>\<open>readFile\<close> catches the failure, prints
  \<^verbatim>\<open>Error reading file index.html: <message>\<close> on the error console and returns
  \<^verbatim>\<open>null\<close>; \<^verbatim>\<open>integrateFarcade\<close> then prints
  \<^verbatim>\<open>Could not read HTML template. Aborting.\<close> and returns normally, before any
  transformation. No exception reaches its caller, the result does not depend on the
  injection functions, and no file is written or changed.
\<close>

theorem read_failure_aborts_without_writing:
  assumes "readFileSync w indexTemplate = Inl (Error message)"
  shows "readFile w indexTemplate =
           (None, w\<lparr>stderr := stderr w @ [''Error reading file index.html: '' @ message]\<rparr>)
       \<and> integrateFarcade_remix w =
           (Inr (), w\<lparr>stderr := stderr w @ [''Error reading file index.html: '' @ message,
                                             ''Could not read HTML template. Aborting.'']\<rparr>)
       \<and> integrateFarcade_part0 w = integrateFarcade_remix w
       \<and> files (snd (integrateFarcade_remix w)) = files w
       \<and> files (snd (integrateFarcade_part0 w)) = files w"
  using assms integrateFarcade_read_failure[OF assms]
  by (simp add: integrateFarcade_remix_def integrateFarcade_part0_def readFile_def indexTemplate_def)

theorem read_failure_aborts_without_writing_witness:
  "readFileSync (unreadableWorld plainDoc) indexTemplate
     = Inl (Error (''EACCES: permission denied, open 'index.html'' @ [CHR 0x27]))
   \<and> integrateFarcade_remix (unreadableWorld plainDoc) =
       (Inr (), (unreadableWorld plainDoc)\<lparr>stderr :=
          [''Error reading file index.html: EACCES: permission denied, open 'index.html'' @ [CHR 0x27],
           ''Could not read HTML template. Aborting.'']\<rparr>)
   \<and> files (snd (integrateFarcade_part0 (unreadableWorld plainDoc))) indexTemplate = Some plainDoc
   \<and> files (snd (integrateFarcade_part0 (unreadableWorld plainDoc))) outputFile = None"
proof -
  have h: "readFileSync (unreadableWorld plainDoc) indexTemplate
     = Inl (Error (''EACCES: permission denied, open 'index.html'' @ [CHR 0x27]))"
    by (simp add: readFileSync_def unreadableWorld_def)
  show ?thesis
    using h read_failure_aborts_without_writing[OF h]
    by (simp add: unreadableWorld_def paths_differ[symmetric])
qed

subsection \<open>Write failure\<close>

text \<open>
  Against claim C1 (a failed write surfaces a write error to the caller instead of
  completing as a success): in a world where writing \<^verbatim>\<open>index.farcade.html\<close> fails,
  \<^verbatim>\<open>writeFileSync\<close> throws, but \<^verbatim>\<open>writeFile\<close> and both runs return normally.
\<close>

theorem write_failure_not_surfaced:
  "fst (writeFileSync (unwritableWorld plainDoc) outputFile plainDoc)
     = Inl (Error ''ENOENT: no such file or directory'')
   \<and> fst (writeFile (unwritableWorld plainDoc) outputFile plainDoc) = Inr ()
   \<and> fst (integrateFarcade_remix (unwritableWorld plainDoc)) = Inr ()
   \<and> fst (integrateFarcade_part0 (unwritableWorld plainDoc)) = Inr ()"
  by (simp add: writeFileSync_def writeFile_def unwritableWorld_def integrateFarcade_remix_def
      integrateFarcade_part0_def integrateFarcade_def readFile_def readFileSync_def Let_def
      paths_differ plainDoc_def cu_def split: prod.splits sum.splits)

text \<open>
  Claim C1 as amended. When writing the destination file fails, \<^verbatim>\<open>writeFile\<close> catches
  the failure and prints \<^verbatim>\<open>Error writing file index.farcade.html: <message>\<close> on the error
  console; no exception reaches the caller; the destination holds what the failed write
  left there, and the source file is untouched.
\<close>

theorem write_failure_reported_source_untouched:
  assumes "readFileSync w indexTemplate = Inr html" "html \<noteq> []"
    "writeFault w outputFile = Some (message, residue)"
  shows "integrateFarcade_remix w =
           (Inr (), w\<lparr>files := (files w)(outputFile := residue),
                     stderr := stderr w @ [''Error writing file index.farcade.html: '' @ message]\<rparr>)
       \<and> integrateFarcade_part0 w = integrateFarcade_remix w
       \<and> files (snd (integrateFarcade_remix w)) indexTemplate = files w indexTemplate
       \<and> files (snd (integrateFarcade_part0 w)) indexTemplate = files w indexTemplate"
  using integrateFarcade_write_failure[OF assms] paths_differ
  by (simp add: integrateFarcade_remix_def integrateFarcade_part0_def outputFile_def)

theorem write_failure_reported_source_untouched_witness:
  "readFileSync (unwritableWorld plainDoc) indexTemplate = Inr plainDoc \<and> plainDoc \<noteq> []
   \<and> writeFault (unwritableWorld plainDoc) outputFile
       = Some (''ENOENT: no such file or directory'', None)
   \<and> stderr (snd (integrateFarcade_remix (unwritableWorld plainDoc)))
       = [''Error writing file index.farcade.html: ENOENT: no such file or directory'']
   \<and> files (snd (integrateFarcade_remix (unwritableWorld plainDoc))) indexTemplate = Some plainDoc
   \<and> files (snd (integrateFarcade_remix (unwritableWorld plainDoc))) outputFile = None"
proof -
  have h1: "readFileSync (unwritableWorld plainDoc) indexTemplate = Inr plainDoc"
    by (simp add: readFileSync_def unwritableWorld_def)
  have h2: "plainDoc \<noteq> []" by (simp add: plainDoc_def cu_def)
  have h3: "writeFault (unwritableWorld plainDoc) outputFile
       = Some (''ENOENT: no such file or directory'', None)"
    by (simp add: unwritableWorld_def)
  show ?thesis
    using h1 h2 h3 write_failure_reported_source_untouched[OF h1 h2 h3]
    by (simp add: unwritableWorld_def paths_differ)
qed

subsection \<open>Determinism\<close>

text \<open>
  Claim C8. Two independent runs on the same input document write byte-identical output:
  whatever else the two worlds hold (other files, an older output file, earlier console
  lines), the output file of each run is the patched input document.
\<close>

theorem runs_on_same_input_write_same_output:
  assumes "readFileSync w1 indexTemplate = Inr html" "readFileSync w2 indexTemplate = Inr html"
    "html \<noteq> []" "writeFault w1 outputFile = None" "writeFault w2 outputFile = None"
  shows "files (snd (integrateFarcade_remix w1)) outputFile
           = files (snd (integrateFarcade_remix w2)) outputFile
       \<and> files (snd (integrateFarcade_remix w1)) outputFile
           = Some (injectFarcadeGameLogic_remix (injectFarcadeSDK html))
       \<and> files (snd (integrateFarcade_part0 w1)) outputFile
           = files (snd (integrateFarcade_part0 w2)) outputFile
       \<and> files (snd (integrateFarcade_part0 w1)) outputFile
           = Some (injectFarcadeGameLogic_part0 (injectFarcadeSDK html))"
  using integrateFarcade_written[OF assms(1,3,4)] integrateFarcade_written[OF assms(2,3,5)]
  by (simp add: integrateFarcade_remix_def integrateFarcade_part0_def)

theorem runs_on_same_input_write_same_output_witness:
  "readFileSync (worldWith plainDoc) indexTemplate = Inr plainDoc
   \<and> readFileSync (usedWorld plainDoc) indexTemplate = Inr plainDoc
   \<and> plainDoc \<noteq> []
   \<and> writeFault (worldWith plainDoc) outputFile = None
   \<and> writeFault (usedWorld plainDoc) outputFile = None
   \<and> files (snd (integrateFarcade_remix (worldWith plainDoc))) outputFile
       = files (snd (integrateFarcade_remix (usedWorld plainDoc))) outputFile
   \<and> files (snd (integrateFarcade_part0 (worldWith plainDoc))) outputFile
       = files (snd (integrateFarcade_part0 (usedWorld plainDoc))) outputFile"
proof -
  have h1: "readFileSync (worldWith plainDoc) indexTemplate = Inr plainDoc"
    by (simp add: readFileSync_def worldWith_def)
  have h2: "readFileSync (usedWorld plainDoc) indexTemplate = Inr plainDoc"
    by (simp add: readFileSync_def usedWorld_def indexTemplate_def outputFile_def)
  have h3: "plainDoc \<noteq> []" by (simp add: plainDoc_def cu_def)
  have h4: "writeFault (worldWith plainDoc) outputFile = None" by (simp add: worldWith_def)
  have h5: "writeFault (usedWorld plainDoc) outputFile = None" by (simp add: usedWorld_def)
  show ?thesis
    using h1 h2 h3 h4 h5 runs_on_same_input_write_same_output[OF h1 h2 h3 h4 h5]
    by simp
qed

subsection \<open>Documents without a head-closing marker\<close>

text \<open>
  Against claim C2 (without \<^verbatim>\<open></head>\<close> the output equals the input): a document
  without the marker that holds the engine-construction statement gets the event handlers
  injected, so the written output differs from the input.
\<close>

theorem no_head_output_differs:
  "\<not> includes_str noHeadDoc (cu ''</head>'')
   \<and> injectFarcadeGameLogic_remix (injectFarcadeSDK noHeadDoc) \<noteq> noHeadDoc
   \<and> injectFarcadeGameLogic_part0 (injectFarcadeSDK noHeadDoc) \<noteq> noHeadDoc
   \<and> files (snd (integrateFarcade_remix (worldWith noHeadDoc))) outputFile \<noteq> Some noHeadDoc
   \<and> files (snd (integrateFarcade_part0 (worldWith noHeadDoc))) outputFile \<noteq> Some noHeadDoc"
proof -
  have s: "injectFarcadeSDK noHeadDoc = noHeadDoc"
    by (rule injectFarcadeSDK_no_head[OF noHeadDoc_no_head])
  have e: "injectEventHandlers noHeadDoc \<noteq> noHeadDoc"
    by (rule injectEventHandlers_changes[OF noHeadDoc_event])
  have r: "injectFarcadeGameLogic_remix noHeadDoc = injectEventHandlers noHeadDoc"
    using noHeadDoc_facts
    by (simp add: injectFarcadeGameLogic_remix_def injectReady_def injectGameOver_remix_def
      injectAlternative_def injectEndOfMethod_def replaceFn_def)
  have p: "injectFarcadeGameLogic_part0 noHeadDoc = injectEventHandlers noHeadDoc"
    using noHeadDoc_facts
    by (simp add: injectFarcadeGameLogic_part0_def injectReady_def injectGameOver_part0_def
      injectFallback_def replaceFn_def)
  have n: "noHeadDoc \<noteq> []" by (simp add: noHeadDoc_def cu_def)
  have rd: "readFileSync (worldWith noHeadDoc) indexTemplate = Inr noHeadDoc"
    by (simp add: readFileSync_def worldWith_def)
  have wf: "writeFault (worldWith noHeadDoc) outputFile = None" by (simp add: worldWith_def)
  show ?thesis
    using noHeadDoc_no_head e integrateFarcade_written[OF rd n wf]
    by (simp add: s r p integrateFarcade_remix_def integrateFarcade_part0_def)
qed

text \<open>
  Claim C2 as amended. For any input document without \<^verbatim>\<open></head>\<close> the SDK-tag rule
  changes nothing, and the run raises no error. When the document is not empty and the
  write succeeds, the written output is what \<^verbatim>\<open>injectFarcadeGameLogic\<close> makes of the
  unmodified input, and nothing is printed on the error console. That output is the input
  itself, code unit for code unit, exactly when no behaviour rule fires: the ready anchor
  and the engine-construction statement do not match, the primary game-over anchor does
  not match, and no fallback anchor matches unless the input already holds the guarded
  call text. Otherwise it is the input with those hooks injected. An empty document is
  not patched: the run prints \<^verbatim>\<open>Could not read HTML template. Aborting.\<close> and writes
  nothing.
\<close>

theorem no_head_sdk_rule_skipped:
  assumes "\<not> includes_str html (cu ''</head>'')" "readFileSync w indexTemplate = Inr html"
  shows "injectFarcadeSDK html = html
       \<and> fst (integrateFarcade_remix w) = Inr () \<and> fst (integrateFarcade_part0 w) = Inr ()
       \<and> (html \<noteq> [] \<and> writeFault w outputFile = None \<longrightarrow>
            integrateFarcade_remix w =
              (Inr (), w\<lparr>files := (files w)(outputFile \<mapsto> injectFarcadeGameLogic_remix html)\<rparr>)
            \<and> integrateFarcade_part0 w =
              (Inr (), w\<lparr>files := (files w)(outputFile \<mapsto> injectFarcadeGameLogic_part0 html)\<rparr>))
       \<and> (html = [] \<longrightarrow>
            integrateFarcade_remix w =
              (Inr (), w\<lparr>stderr := stderr w @ [''Could not read HTML template. Aborting.'']\<rparr>)
            \<and> integrateFarcade_part0 w = integrateFarcade_remix w)
       \<and> (injectFarcadeGameLogic_remix html = html
           \<longleftrightarrow> exec showTitleScreenPattern html = None
               \<and> exec gameOverScreenPattern_remix html = None
               \<and> (includes_str html gameOverCall
                   \<or> exec alternativePattern html = None \<and> exec endOfMethodPattern html = None)
               \<and> exec phaserGameInstancePattern html = None)
       \<and> (injectFarcadeGameLogic_part0 html = html
           \<longleftrightarrow> exec showTitleScreenPattern html = None
               \<and> exec gameOverScreenPattern_part0 html = None
               \<and> (includes_str html gameOverCall \<or> exec fallbackPattern html = None)
               \<and> exec phaserGameInstancePattern html = None)"
proof -
  have s: "injectFarcadeSDK html = html" by (rule injectFarcadeSDK_no_head[OF assms(1)])
  have w: "integrateFarcade logic w =
      (Inr (), w\<lparr>files := (files w)(outputFile \<mapsto> logic html)\<rparr>)"
    if "html \<noteq> []" "writeFault w outputFile = None" for logic
    using integrateFarcade_written[OF assms(2) that] by (simp add: s)
  have e: "integrateFarcade logic w =
      (Inr (), w\<lparr>stderr := stderr w @ [''Could not read HTML template. Aborting.'']\<rparr>)"
    if "html = []" for logic
    using integrateFarcade_empty[of w] assms(2) that by simp
  have r: "fst (integrateFarcade_remix w) = Inr ()" "fst (integrateFarcade_part0 w) = Inr ()"
    by (simp_all add: integrateFarcade_remix_def integrateFarcade_part0_def integrateFarcade_returns)
  have w': "html \<noteq> [] \<and> writeFault w outputFile = None \<longrightarrow>
            integrateFarcade_remix w =
              (Inr (), w\<lparr>files := (files w)(outputFile \<mapsto> injectFarcadeGameLogic_remix html)\<rparr>)
            \<and> integrateFarcade_part0 w =
              (Inr (), w\<lparr>files := (files w)(outputFile \<mapsto> injectFarcadeGameLogic_part0 html)\<rparr>)"
    using w by (simp add: integrateFarcade_remix_def integrateFarcade_part0_def)
  have e': "html = [] \<longrightarrow>
            integrateFarcade_remix w =
              (Inr (), w\<lparr>stderr := stderr w @ [''Could not read HTML template. Aborting.'']\<rparr>)
            \<and> integrateFarcade_part0 w = integrateFarcade_remix w"
    using e by (simp add: integrateFarcade_remix_def integrateFarcade_part0_def)
  show ?thesis
    by (intro conjI s r w' e' logic_remix_unchanged_iff logic_part0_unchanged_iff)
qed

theorem no_head_sdk_rule_skipped_witness:
  "\<not> includes_str plainDoc (cu ''</head>'')
   \<and> readFileSync (worldWith plainDoc) indexTemplate = Inr plainDoc \<and> plainDoc \<noteq> []
   \<and> writeFault (worldWith plainDoc) outputFile = None
   \<and> exec showTitleScreenPattern plainDoc = None \<and> exec gameOverScreenPattern_remix plainDoc = None
   \<and> exec alternativePattern plainDoc = None \<and> exec endOfMethodPattern plainDoc = None
   \<and> exec phaserGameInstancePattern plainDoc = None
   \<and> exec gameOverScreenPattern_part0 plainDoc = None \<and> exec fallbackPattern plainDoc = None
   \<and> files (snd (integrateFarcade_remix (worldWith plainDoc))) outputFile = Some plainDoc
   \<and> files (snd (integrateFarcade_part0 (worldWith plainDoc))) outputFile = Some plainDoc
   \<and> stderr (snd (integrateFarcade_remix (worldWith plainDoc))) = []
   \<and> \<not> includes_str [] (cu ''</head>'')
   \<and> readFileSync (worldWith []) indexTemplate = Inr []
   \<and> files (snd (integrateFarcade_remix (worldWith []))) outputFile = None
   \<and> files (snd (integrateFarcade_part0 (worldWith []))) outputFile = None
   \<and> stderr (snd (integrateFarcade_remix (worldWith []))) = [''Could not read HTML template. Aborting.'']
   \<and> \<not> includes_str guardedDoc (cu ''</head>'')
   \<and> readFileSync (worldWith guardedDoc) indexTemplate = Inr guardedDoc \<and> guardedDoc \<noteq> []
   \<and> includes_str guardedDoc gameOverCall \<and> exec alternativePattern guardedDoc \<noteq> None
   \<and> exec fallbackPattern guardedDoc \<noteq> None
   \<and> files (snd (integrateFarcade_remix (worldWith guardedDoc))) outputFile = Some guardedDoc
   \<and> files (snd (integrateFarcade_part0 (worldWith guardedDoc))) outputFile = Some guardedDoc"
proof -
  have rd: "readFileSync (worldWith plainDoc) indexTemplate = Inr plainDoc"
    by (simp add: readFileSync_def worldWith_def)
  have n: "plainDoc \<noteq> []" by (simp add: plainDoc_def cu_def)
  have wf: "writeFault (worldWith d) outputFile = None" for d by (simp add: worldWith_def)
  have h0: "\<not> includes_str [] (cu ''</head>'')" by (simp add: cu_def)
  have rd0: "readFileSync (worldWith []) indexTemplate = Inr []"
    by (simp add: readFileSync_def worldWith_def)
  have rdg: "readFileSync (worldWith guardedDoc) indexTemplate = Inr guardedDoc"
    by (simp add: readFileSync_def worldWith_def)
  have ng: "guardedDoc \<noteq> []" using guardedDoc_includes by (auto simp: gameOverCall_def cu_def)
  have p: "files (snd (integrateFarcade_remix (worldWith plainDoc))) outputFile = Some plainDoc
     \<and> files (snd (integrateFarcade_part0 (worldWith plainDoc))) outputFile = Some plainDoc
     \<and> stderr (snd (integrateFarcade_remix (worldWith plainDoc))) = []"
    using plainDoc_facts n wf no_head_sdk_rule_skipped[OF plainDoc_facts(1) rd]
    by (simp add: worldWith_def)
  have z: "files (snd (integrateFarcade_remix (worldWith []))) outputFile = None
     \<and> files (snd (integrateFarcade_part0 (worldWith []))) outputFile = None
     \<and> stderr (snd (integrateFarcade_remix (worldWith []))) = [''Could not read HTML template. Aborting.'']"
    using no_head_sdk_rule_skipped[OF h0 rd0]
    by (simp add: worldWith_def paths_differ[symmetric])
  have g: "files (snd (integrateFarcade_remix (worldWith guardedDoc))) outputFile = Some guardedDoc
     \<and> files (snd (integrateFarcade_part0 (worldWith guardedDoc))) outputFile = Some guardedDoc"
    using guardedDoc_shared guardedDoc_anchors(1,3) guardedDoc_includes guardedDoc_rest ng wf
      no_head_sdk_rule_skipped[OF guardedDoc_shared(1) rdg]
    by (simp add: worldWith_def)
  show ?thesis
    using plainDoc_facts rd n wf h0 rd0 p z guardedDoc_shared(1) rdg ng guardedDoc_includes
      guardedDoc_anchors(2,4) g
    by simp
qed

subsection \<open>The SDK script tag\<close>

text \<open>
  Against claim C5 (with exactly one \<^verbatim>\<open></head>\<close> the output contains the SDK script
  reference exactly once): a document that already holds the reference in its head, with
  one \<^verbatim>\<open></head>\<close>, holds it twice after the rule.
\<close>

theorem sdk_tag_twice_in_patched_document:
  "occurrences (cu ''</head>'') patchedDoc = 1
   \<and> occurrences farcadeScriptTag (injectFarcadeSDK patchedDoc) = 2"
proof -
  note u = farcadeScriptTag_units
  have "occurrences farcadeScriptTag
       (cu ''<head>'' @ 0x0A # (farcadeScriptTag @ 0x0A # (farcadeScriptTag @ 0x0A # cu ''</head>'')))
     = occurrences farcadeScriptTag (cu ''<head>'')
       + occurrences farcadeScriptTag (farcadeScriptTag @ 0x0A # (farcadeScriptTag @ 0x0A # cu ''</head>''))"
    by (rule occurrences_sep[OF u(2,1)])
  moreover have "occurrences farcadeScriptTag (farcadeScriptTag @ 0x0A # (farcadeScriptTag @ 0x0A # cu ''</head>''))
     = occurrences farcadeScriptTag farcadeScriptTag
       + occurrences farcadeScriptTag (farcadeScriptTag @ 0x0A # cu ''</head>'')"
    by (rule occurrences_sep[OF u(2,1)])
  moreover have "occurrences farcadeScriptTag (farcadeScriptTag @ 0x0A # cu ''</head>'')
     = occurrences farcadeScriptTag farcadeScriptTag + occurrences farcadeScriptTag (cu ''</head>'')"
    by (rule occurrences_sep[OF u(2,1)])
  ultimately have "occurrences farcadeScriptTag (injectFarcadeSDK patchedDoc) = 2"
    by (simp add: patchedDoc_patched farcadeScriptTag_chars)
  with patchedDoc_markers show ?thesis by simp
qed

text \<open>
  Claim C5 as amended. For every input document containing \<^verbatim>\<open></head>\<close> exactly once,
  the output of the SDK-tag rule is the input with the SDK script reference and a line
  feed put in once, immediately before that marker, and is otherwise unchanged; it
  contains the reference exactly once when the input did not already contain it.
\<close>

theorem sdk_tag_before_single_marker:
  assumes "occurrences (cu ''</head>'') html = 1"
  shows "\<exists>b a. html = b @ cu ''</head>'' @ a
           \<and> \<not> includes_str (b @ cu ''</head'') (cu ''</head>'')
           \<and> injectFarcadeSDK html = b @ farcadeScriptTag @ [0x0A] @ cu ''</head>'' @ a
           \<and> (\<not> includes_str html farcadeScriptTag
                \<longrightarrow> occurrences farcadeScriptTag (injectFarcadeSDK html) = 1)"
proof -
  have bl: "butlast (cu ''</head>'') = cu ''</head''" and ne: "cu ''</head>'' \<noteq> []"
    by (simp_all add: cu_def)
  from occurrences_pos_decomp[OF _ ne, of html] assms obtain b a where
    d: "html = b @ cu ''</head>'' @ a" "\<not> includes_str (b @ cu ''</head'') (cu ''</head>'')"
    by (auto simp: bl)
  have i: "injectFarcadeSDK html = b @ farcadeScriptTag @ [0x0A] @ cu ''</head>'' @ a"
    unfolding d(1) by (rule injectFarcadeSDK_first[OF d(2)])
  show ?thesis using d i injectFarcadeSDK_fresh_tag[OF d(1)] by auto
qed

theorem sdk_tag_before_single_marker_witness:
  "occurrences (cu ''</head>'') singleHeadDoc = 1
   \<and> \<not> includes_str singleHeadDoc farcadeScriptTag
   \<and> occurrences farcadeScriptTag (injectFarcadeSDK singleHeadDoc) = 1"
proof -
  have h: "occurrences (cu ''</head>'') singleHeadDoc = 1"
    unfolding singleHeadDoc_def occurrences_cu by code_simp
  have n: "\<not> includes_str singleHeadDoc farcadeScriptTag"
    unfolding singleHeadDoc_def farcadeScriptTag_def includes_str_cu by code_simp
  from sdk_tag_before_single_marker[OF h] n
  have "occurrences farcadeScriptTag (injectFarcadeSDK singleHeadDoc) = 1" by blast
  with h n show ?thesis by simp
qed

subsection \<open>Only the first occurrence is patched\<close>

text \<open>
  Against claim C9 (every rule makes exactly one injection when its anchor occurs more
  than once): in a document that holds the fallback anchor twice and the primary
  game-over anchor after them, the primary rule puts in the call text, the guard then
  finds that text, and the fallback rule of either script makes no injection although
  its pattern matches: the output of the run is the input with the primary hook at its
  end and nothing at either occurrence of the fallback anchor.
\<close>

theorem guard_skips_anchor_that_occurs_twice:
  "occurrences (cu ''this.playButton.removeAllListeners();'') twoAnchorsDoc = 2
   \<and> exec alternativePattern (injectGameOver_remix twoAnchorsDoc) \<noteq> None
   \<and> injectAlternative (injectGameOver_remix twoAnchorsDoc) = injectGameOver_remix twoAnchorsDoc
   \<and> exec fallbackPattern (injectGameOver_part0 twoAnchorsDoc) \<noteq> None
   \<and> injectFallback (injectGameOver_part0 twoAnchorsDoc) = injectGameOver_part0 twoAnchorsDoc
   \<and> injectFarcadeGameLogic_remix (injectFarcadeSDK twoAnchorsDoc)
       = twoAnchorsDoc @ gameOverInjection_remix
   \<and> injectFarcadeGameLogic_part0 (injectFarcadeSDK twoAnchorsDoc)
       = twoAnchorsDoc @ gameOverInjection_part0"
proof -
  have a: "exec alternativePattern (injectGameOver_remix twoAnchorsDoc) \<noteq> None"
    unfolding twoAnchorsDoc_hooks by (rule exec_append[OF twoAnchorsDoc_anchors(1)])
  have f: "exec fallbackPattern (injectGameOver_part0 twoAnchorsDoc) \<noteq> None"
    unfolding twoAnchorsDoc_hooks by (rule exec_append[OF twoAnchorsDoc_anchors(2)])
  have "occurrences gameOverCall (injectGameOver_remix twoAnchorsDoc) \<noteq> 0"
    using twoAnchorsDoc_primary(1) by (auto simp: occurrences_injectGameOver_remix)
  then have ia: "injectAlternative (injectGameOver_remix twoAnchorsDoc) = injectGameOver_remix twoAnchorsDoc"
    by (simp add: injectAlternative_def occurrences_zero_iff)
  have "occurrences gameOverCall (injectGameOver_part0 twoAnchorsDoc) \<noteq> 0"
    using twoAnchorsDoc_primary(2) by (auto simp: occurrences_injectGameOver_part0)
  then have ifb: "injectFallback (injectGameOver_part0 twoAnchorsDoc) = injectGameOver_part0 twoAnchorsDoc"
    by (simp add: injectFallback_def occurrences_zero_iff)
  show ?thesis by (intro conjI twoAnchorsDoc_facts(1) a f ia ifb twoAnchorsDoc_run)
qed

text \<open>
  Claim C9 as amended. No pattern carries the global flag, so every rule that runs patches
  only the first occurrence of its anchor. The SDK-tag, ready, primary game-over and
  event-handler rules always run; a fallback rule runs only when the document it receives
  does not contain the text \<^verbatim>\<open>window.FarcadeSDK.singlePlayer.actions.gameOver\<close>, and
  otherwise makes no injection. For each of the eight rules: when \<open>i\<close> is the first
  position of the document at which the pattern of the rule matches, the rule puts its
  text in once, next to that match (before it for the SDK tag, between the two captures
  for the end-of-method rule, right after it for the others), and whatever follows that
  match, further occurrences of the anchor included, is left as it is.

  The first three parts say the same for the SDK tag and the ready signal in terms of the
  first occurrence of their literal texts, and for every pattern and replacer in terms of
  \<^verbatim>\<open>exec\<close>: no match starts before the rewritten one, and the text after it is kept.
\<close>

theorem only_first_occurrence_patched:
  "(\<not> includes_str (b @ cu ''</head'') (cu ''</head>'')
      \<longrightarrow> injectFarcadeSDK (b @ cu ''</head>'' @ a)
            = b @ farcadeScriptTag @ [0x0A] @ cu ''</head>'' @ a)
   \<and> (\<not> includes_str (b @ cu ''showTitleScreen() '') (cu ''showTitleScreen() {'')
       \<and> \<not> includes_str (g @ cu ''this.gameElements.forEach(element => element.setVisible(false))'')
             (cu ''this.gameElements.forEach(element => element.setVisible(false));'')
      \<longrightarrow> injectReady (b @ cu ''showTitleScreen() {'' @ g
              @ cu ''this.gameElements.forEach(element => element.setVisible(false));'' @ a)
            = b @ cu ''showTitleScreen() {'' @ g
              @ cu ''this.gameElements.forEach(element => element.setVisible(false));''
              @ readyInjection @ a)
   \<and> (exec re s = Some (p, segs', r)
      \<longrightarrow> s = p @ concat segs' @ r
          \<and> replaceFn s re f = p @ f (concat segs') (captures re segs') @ r
          \<and> (\<forall>i<length p. matchHere re (drop i s) = None))
   \<and> (firstMatchAt headPattern d i segs
      \<longrightarrow> injectFarcadeSDK d
            = take i d @ farcadeScriptTag @ [0x0A] @ concat segs
              @ drop (i + length (concat segs)) d)
   \<and> (firstMatchAt showTitleScreenPattern d i segs
      \<longrightarrow> injectReady d
            = take i d @ concat segs @ readyInjection @ drop (i + length (concat segs)) d)
   \<and> (firstMatchAt gameOverScreenPattern_remix d i segs
      \<longrightarrow> injectGameOver_remix d
            = take i d @ concat segs @ gameOverInjection_remix
              @ drop (i + length (concat segs)) d)
   \<and> (firstMatchAt alternativePattern d i segs
      \<longrightarrow> injectAlternative d
            = (if includes_str d gameOverCall then d
               else take i d @ concat segs @ alternativeInjection
                    @ drop (i + length (concat segs)) d))
   \<and> (firstMatchAt endOfMethodPattern d i segs
      \<longrightarrow> (\<exists>methodBody closingBrace.
             captures endOfMethodPattern segs = [methodBody, closingBrace]
             \<and> concat segs = methodBody @ closingBrace
             \<and> injectEndOfMethod d
                 = (if includes_str d gameOverCall then d
                    else take i d @ methodBody @ endOfMethodInjection @ closingBrace
                         @ drop (i + length (concat segs)) d)))
   \<and> (firstMatchAt phaserGameInstancePattern d i segs
      \<longrightarrow> injectEventHandlers d
            = take i d @ concat segs @ eventHandlersInjection
              @ drop (i + length (concat segs)) d)
   \<and> (firstMatchAt gameOverScreenPattern_part0 d i segs
      \<longrightarrow> injectGameOver_part0 d
            = take i d @ concat segs @ gameOverInjection_part0
              @ drop (i + length (concat segs)) d)
   \<and> (firstMatchAt fallbackPattern d i segs
      \<longrightarrow> injectFallback d
            = (if includes_str d gameOverCall then d
               else take i d @ concat segs @ fallbackInjection
                    @ drop (i + length (concat segs)) d))"
proof (intro conjI impI)
  show "injectFarcadeSDK (b @ cu ''</head>'' @ a)
            = b @ farcadeScriptTag @ [0x0A] @ cu ''</head>'' @ a"
    if "\<not> includes_str (b @ cu ''</head'') (cu ''</head>'')"
    using injectFarcadeSDK_first[of b a] that by simp
  show "injectReady (b @ cu ''showTitleScreen() {'' @ g
              @ cu ''this.gameElements.forEach(element => element.setVisible(false));'' @ a)
            = b @ cu ''showTitleScreen() {'' @ g
              @ cu ''this.gameElements.forEach(element => element.setVisible(false));''
              @ readyInjection @ a"
    if "\<not> includes_str (b @ cu ''showTitleScreen() '') (cu ''showTitleScreen() {'')
       \<and> \<not> includes_str (g @ cu ''this.gameElements.forEach(element => element.setVisible(false))'')
             (cu ''this.gameElements.forEach(element => element.setVisible(false));'')"
    using injectReady_first[of b g a] that by simp
  show "s = p @ concat segs' @ r" if "exec re s = Some (p, segs', r)"
    by (rule conjunct1[OF exec_Some[OF that]])
  show "replaceFn s re f = p @ f (concat segs') (captures re segs') @ r"
    if "exec re s = Some (p, segs', r)"
    using that by (simp add: replaceFn_def)
  show "\<forall>i<length p. matchHere re (drop i s) = None" if "exec re s = Some (p, segs', r)"
    by (rule conjunct2[OF conjunct2[OF exec_Some[OF that]]])
  show "injectFarcadeSDK d
            = take i d @ farcadeScriptTag @ [0x0A] @ concat segs
              @ drop (i + length (concat segs)) d"
    if "firstMatchAt headPattern d i segs"
    by (rule injectFarcadeSDK_firstMatch[OF that])
  show "injectReady d
            = take i d @ concat segs @ readyInjection @ drop (i + length (concat segs)) d"
    if "firstMatchAt showTitleScreenPattern d i segs"
    by (simp add: injectReady_def replaceFn_first[OF that])
  show "injectGameOver_remix d
            = take i d @ concat segs @ gameOverInjection_remix
              @ drop (i + length (concat segs)) d"
    if "firstMatchAt gameOverScreenPattern_remix d i segs"
    by (simp add: injectGameOver_remix_def replaceFn_first[OF that])
  show "injectAlternative d
            = (if includes_str d gameOverCall then d
               else take i d @ concat segs @ alternativeInjection
                    @ drop (i + length (concat segs)) d)"
    if "firstMatchAt alternativePattern d i segs"
    by (simp add: injectAlternative_def replaceFn_first[OF that])
  show "\<exists>methodBody closingBrace.
             captures endOfMethodPattern segs = [methodBody, closingBrace]
             \<and> concat segs = methodBody @ closingBrace
             \<and> injectEndOfMethod d
                 = (if includes_str d gameOverCall then d
                    else take i d @ methodBody @ endOfMethodInjection @ closingBrace
                         @ drop (i + length (concat segs)) d)"
    if "firstMatchAt endOfMethodPattern d i segs"
    by (rule injectEndOfMethod_firstMatch[OF that])
  show "injectEventHandlers d
            = take i d @ concat segs @ eventHandlersInjection
              @ drop (i + length (concat segs)) d"
    if "firstMatchAt phaserGameInstancePattern d i segs"
    by (simp add: injectEventHandlers_def replaceFn_first[OF that])
  show "injectGameOver_part0 d
            = take i d @ concat segs @ gameOverInjection_part0
              @ drop (i + length (concat segs)) d"
    if "firstMatchAt gameOverScreenPattern_part0 d i segs"
    by (simp add: injectGameOver_part0_def replaceFn_first[OF that])
  show "injectFallback d
            = (if includes_str d gameOverCall then d
               else take i d @ concat segs @ fallbackInjection
                    @ drop (i + length (concat segs)) d)"
    if "firstMatchAt fallbackPattern d i segs"
    by (simp add: injectFallback_def replaceFn_first[OF that])
qed

theorem only_first_occurrence_patched_witness:
  "\<not> includes_str (cu ''<head>'' @ cu ''</head'') (cu ''</head>'')
   \<and> injectFarcadeSDK (cu ''<head>'' @ cu ''</head>'' @ cu ''<body></head>'')
       = cu ''<head>'' @ farcadeScriptTag @ [0x0A] @ cu ''</head>'' @ cu ''<body></head>''
   \<and> \<not> includes_str (cu ''class T { '' @ cu ''showTitleScreen() '') (cu ''showTitleScreen() {'')
   \<and> \<not> includes_str (cu '' this.x = 1; ''
           @ cu ''this.gameElements.forEach(element => element.setVisible(false))'')
         (cu ''this.gameElements.forEach(element => element.setVisible(false));'')
   \<and> injectReady (cu ''class T { '' @ cu ''showTitleScreen() {'' @ cu '' this.x = 1; ''
         @ cu ''this.gameElements.forEach(element => element.setVisible(false));''
         @ cu '' } showTitleScreen() { this.gameElements.forEach(element => element.setVisible(false)); }'')
       = cu ''class T { '' @ cu ''showTitleScreen() {'' @ cu '' this.x = 1; ''
         @ cu ''this.gameElements.forEach(element => element.setVisible(false));''
         @ readyInjection
         @ cu '' } showTitleScreen() { this.gameElements.forEach(element => element.setVisible(false)); }''
   \<and> exec headPattern (cu ''</head></head>'') = Some ([], [cu ''</head>''], cu ''</head>'')
   \<and> replaceFn (cu ''</head></head>'') headPattern (\<lambda>match caps. match @ match)
       = [] @ (concat [cu ''</head>''] @ concat [cu ''</head>'']) @ cu ''</head>''
   \<and> firstMatchAt headPattern (cu ''</head>'' @ cu ''</head>'') 0 [cu ''</head>'']
   \<and> injectFarcadeSDK (cu ''</head>'' @ cu ''</head>'')
       = farcadeScriptTag @ [0x0A] @ cu ''</head>'' @ cu ''</head>''
   \<and> firstMatchAt showTitleScreenPattern
         (cu ''showTitleScreen() {this.gameElements.forEach(element => element.setVisible(false));''
          @ cu ''showTitleScreen() {this.gameElements.forEach(element => element.setVisible(false));'') 0
         [[], cu ''showTitleScreen() {'', [],
          cu ''this.gameElements.forEach(element => element.setVisible(false));'', []]
   \<and> injectReady
         (cu ''showTitleScreen() {this.gameElements.forEach(element => element.setVisible(false));''
          @ cu ''showTitleScreen() {this.gameElements.forEach(element => element.setVisible(false));'')
       = cu ''showTitleScreen() {this.gameElements.forEach(element => element.setVisible(false));''
         @ readyInjection
         @ cu ''showTitleScreen() {this.gameElements.forEach(element => element.setVisible(false));''
   \<and> firstMatchAt gameOverScreenPattern_remix
         (cu ''this.playButton.setPosition(1, 2);this.playButton.setInteractive();''
          @ cu ''this.playButton.setPosition(1, 2);this.playButton.setInteractive();'') 0
         [[], cu ''this.playButton.setPosition('', cu ''1, 2'', cu '');'', [],
          cu ''this.playButton.setInteractive();'', []]
   \<and> injectGameOver_remix
         (cu ''this.playButton.setPosition(1, 2);this.playButton.setInteractive();''
          @ cu ''this.playButton.setPosition(1, 2);this.playButton.setInteractive();'')
       = cu ''this.playButton.setPosition(1, 2);this.playButton.setInteractive();''
         @ gameOverInjection_remix
         @ cu ''this.playButton.setPosition(1, 2);this.playButton.setInteractive();''
   \<and> firstMatchAt alternativePattern
         (cu ''this.playButton.removeAllListeners();this.playButton.on('pointerdown', () => {this.startGame();});''
          @ cu ''this.playButton.removeAllListeners();this.playButton.on('pointerdown', () => {this.startGame();});'') 0
         [[], cu ''this.playButton.removeAllListeners();'', [],
          cu ''this.playButton.on('pointerdown', () => {'', [], cu ''this.startGame();'', [],
          cu ''});'', []]
   \<and> injectAlternative
         (cu ''this.playButton.removeAllListeners();this.playButton.on('pointerdown', () => {this.startGame();});''
          @ cu ''this.playButton.removeAllListeners();this.playButton.on('pointerdown', () => {this.startGame();});'')
       = cu ''this.playButton.removeAllListeners();this.playButton.on('pointerdown', () => {this.startGame();});''
         @ alternativeInjection
         @ cu ''this.playButton.removeAllListeners();this.playButton.on('pointerdown', () => {this.startGame();});''
   \<and> firstMatchAt endOfMethodPattern
         (cu ''showGameOverScreen() {this.playButton.on('pointerdown'});}''
          @ cu ''showGameOverScreen() {this.playButton.on('pointerdown'});}'') 0
         [[], cu ''showGameOverScreen() {'', [],
          cu (''this.playButton.on('pointerdown'' @ [CHR 0x27]), [], cu ''});'', [],
          [], [], cu ''}'', []]
   \<and> injectEndOfMethod
         (cu ''showGameOverScreen() {this.playButton.on('pointerdown'});}''
          @ cu ''showGameOverScreen() {this.playButton.on('pointerdown'});}'')
       = cu ''showGameOverScreen() {this.playButton.on('pointerdown'});''
         @ endOfMethodInjection @ cu ''}''
         @ cu ''showGameOverScreen() {this.playButton.on('pointerdown'});}''
   \<and> firstMatchAt phaserGameInstancePattern
         (cu ''const game = new Phaser.Game(config);'' @ cu ''const game = new Phaser.Game(config);'') 0
         [[], cu ''const game = new Phaser.Game(config);'', []]
   \<and> injectEventHandlers
         (cu ''const game = new Phaser.Game(config);'' @ cu ''const game = new Phaser.Game(config);'')
       = cu ''const game = new Phaser.Game(config);'' @ eventHandlersInjection
         @ cu ''const game = new Phaser.Game(config);''
   \<and> firstMatchAt gameOverScreenPattern_part0
         (cu ''this.playButton.setPosition(450, 1360);this.playButton.setInteractive();''
          @ cu ''this.playButton.setPosition(450, 1360);this.playButton.setInteractive();'') 0
         [[], cu ''this.playButton.setPosition(450, 1360);'', [],
          cu ''this.playButton.setInteractive();'', []]
   \<and> injectGameOver_part0
         (cu ''this.playButton.setPosition(450, 1360);this.playButton.setInteractive();''
          @ cu ''this.playButton.setPosition(450, 1360);this.playButton.setInteractive();'')
       = cu ''this.playButton.setPosition(450, 1360);this.playButton.setInteractive();''
         @ gameOverInjection_part0
         @ cu ''this.playButton.setPosition(450, 1360);this.playButton.setInteractive();''
   \<and> firstMatchAt fallbackPattern
         (cu ''this.playButton.removeAllListeners();this.startGame();});''
          @ cu ''this.playButton.removeAllListeners();this.startGame();});'') 0
         [[], cu ''this.playButton.removeAllListeners();'', [], cu ''this.startGame();'', [],
          cu ''});'', []]
   \<and> injectFallback
         (cu ''this.playButton.removeAllListeners();this.startGame();});''
          @ cu ''this.playButton.removeAllListeners();this.startGame();});'')
       = cu ''this.playButton.removeAllListeners();this.startGame();});''
         @ fallbackInjection
         @ cu ''this.playButton.removeAllListeners();this.startGame();});''"
proof -
  have h1: "\<not> includes_str (cu ''<head>'' @ cu ''</head'') (cu ''</head>'')"
    unfolding cu_append[symmetric] includes_str_cu by code_simp
  have h2: "\<not> includes_str (cu ''class T { '' @ cu ''showTitleScreen() '') (cu ''showTitleScreen() {'')"
    unfolding cu_append[symmetric] includes_str_cu by code_simp
  have h3: "\<not> includes_str (cu '' this.x = 1; ''
           @ cu ''this.gameElements.forEach(element => element.setVisible(false))'')
         (cu ''this.gameElements.forEach(element => element.setVisible(false));'')"
    unfolding cu_append[symmetric] includes_str_cu by code_simp
  have h4: "exec headPattern (cu ''</head></head>'') = Some ([], [cu ''</head>''], cu ''</head>'')"
    by code_simp
  note t1 = only_first_occurrence_patched[where b = "cu ''<head>''" and a = "cu ''<body></head>''"]
  note t2 = only_first_occurrence_patched[where b = "cu ''class T { ''" and g = "cu '' this.x = 1; ''"
      and a = "cu '' } showTitleScreen() { this.gameElements.forEach(element => element.setVisible(false)); }''"]
  note t3 = only_first_occurrence_patched[where re = headPattern and s = "cu ''</head></head>''"
      and p = "[]" and segs' = "[cu ''</head>'']" and r = "cu ''</head>''"
      and f = "\<lambda>match caps. match @ match"]
  have c1: "injectFarcadeSDK (cu ''<head>'' @ cu ''</head>'' @ cu ''<body></head>'')
       = cu ''<head>'' @ farcadeScriptTag @ [0x0A] @ cu ''</head>'' @ cu ''<body></head>''"
    by (rule t1[THEN conjunct1, rule_format, OF h1])
  have c2: "injectReady (cu ''class T { '' @ cu ''showTitleScreen() {'' @ cu '' this.x = 1; ''
         @ cu ''this.gameElements.forEach(element => element.setVisible(false));''
         @ cu '' } showTitleScreen() { this.gameElements.forEach(element => element.setVisible(false)); }'')
       = cu ''class T { '' @ cu ''showTitleScreen() {'' @ cu '' this.x = 1; ''
         @ cu ''this.gameElements.forEach(element => element.setVisible(false));''
         @ readyInjection
         @ cu '' } showTitleScreen() { this.gameElements.forEach(element => element.setVisible(false)); }''"
    by (rule t2[THEN conjunct2, THEN conjunct1, rule_format, OF conjI[OF h2 h3]])
  have c3: "replaceFn (cu ''</head></head>'') headPattern (\<lambda>match caps. match @ match)
       = [] @ (concat [cu ''</head>''] @ concat [cu ''</head>'']) @ cu ''</head>''"
    by (rule t3[THEN conjunct2, THEN conjunct2, THEN conjunct1, rule_format, OF h4,
        THEN conjunct2, THEN conjunct1])

  have w4: "firstMatchAt headPattern (cu ''</head>'' @ cu ''</head>'') 0 [cu ''</head>'']"
    by (rule firstMatchAt_0) code_simp
  note r4 = only_first_occurrence_patched[where d = "cu ''</head>'' @ cu ''</head>''" and i = 0
      and segs = "[cu ''</head>'']", THEN conjunct2, THEN conjunct2, THEN conjunct2,
      THEN conjunct1, rule_format, OF w4]
  have c4: "injectFarcadeSDK (cu ''</head>'' @ cu ''</head>'')
       = farcadeScriptTag @ [0x0A] @ cu ''</head>'' @ cu ''</head>''"
    using r4 by simp

  have w5: "firstMatchAt showTitleScreenPattern
         (cu ''showTitleScreen() {this.gameElements.forEach(element => element.setVisible(false));''
          @ cu ''showTitleScreen() {this.gameElements.forEach(element => element.setVisible(false));'') 0
         [[], cu ''showTitleScreen() {'', [],
          cu ''this.gameElements.forEach(element => element.setVisible(false));'', []]"
    by (rule firstMatchAt_0) code_simp
  have k5: "concat [[], cu ''showTitleScreen() {'', [],
          cu ''this.gameElements.forEach(element => element.setVisible(false));'', []]
     = cu ''showTitleScreen() {this.gameElements.forEach(element => element.setVisible(false));''"
    by (simp add: cu_def)
  note r5 = only_first_occurrence_patched[THEN conjunct2, THEN conjunct2, THEN conjunct2,
      THEN conjunct2, THEN conjunct1, rule_format, OF w5]
  have c5: "injectReady
         (cu ''showTitleScreen() {this.gameElements.forEach(element => element.setVisible(false));''
          @ cu ''showTitleScreen() {this.gameElements.forEach(element => element.setVisible(false));'')
       = cu ''showTitleScreen() {this.gameElements.forEach(element => element.setVisible(false));''
         @ readyInjection
         @ cu ''showTitleScreen() {this.gameElements.forEach(element => element.setVisible(false));''"
    using r5 unfolding k5 by simp

  have w6: "firstMatchAt gameOverScreenPattern_remix
         (cu ''this.playButton.setPosition(1, 2);this.playButton.setInteractive();''
          @ cu ''this.playButton.setPosition(1, 2);this.playButton.setInteractive();'') 0
         [[], cu ''this.playButton.setPosition('', cu ''1, 2'', cu '');'', [],
          cu ''this.playButton.setInteractive();'', []]"
    by (rule firstMatchAt_0) code_simp
  have k6: "concat [[], cu ''this.playButton.setPosition('', cu ''1, 2'', cu '');'', [],
          cu ''this.playButton.setInteractive();'', []]
     = cu ''this.playButton.setPosition(1, 2);this.playButton.setInteractive();''"
    by (simp add: cu_def)
  note r6 = only_first_occurrence_patched[THEN conjunct2, THEN conjunct2, THEN conjunct2,
      THEN conjunct2, THEN conjunct2, THEN conjunct1, rule_format, OF w6]
  have c6: "injectGameOver_remix
         (cu ''this.playButton.setPosition(1, 2);this.playButton.setInteractive();''
          @ cu ''this.playButton.setPosition(1, 2);this.playButton.setInteractive();'')
       = cu ''this.playButton.setPosition(1, 2);this.playButton.setInteractive();''
         @ gameOverInjection_remix
         @ cu ''this.playButton.setPosition(1, 2);this.playButton.setInteractive();''"
    using r6 unfolding k6 by simp

  have w7: "firstMatchAt alternativePattern
         (cu ''this.playButton.removeAllListeners();this.playButton.on('pointerdown', () => {this.startGame();});''
          @ cu ''this.playButton.removeAllListeners();this.playButton.on('pointerdown', () => {this.startGame();});'') 0
         [[], cu ''this.playButton.removeAllListeners();'', [],
          cu ''this.playButton.on('pointerdown', () => {'', [], cu ''this.startGame();'', [],
          cu ''});'', []]"
    by (rule firstMatchAt_0) code_simp
  have k7: "concat [[], cu ''this.playButton.removeAllListeners();'', [],
          cu ''this.playButton.on('pointerdown', () => {'', [], cu ''this.startGame();'', [],
          cu ''});'', []]
     = cu ''this.playButton.removeAllListeners();this.playButton.on('pointerdown', () => {this.startGame();});''"
    by (simp add: cu_def)
  have g7: "\<not> includes_str
         (cu ''this.playButton.removeAllListeners();this.playButton.on('pointerdown', () => {this.startGame();});''
          @ cu ''this.playButton.removeAllListeners();this.playButton.on('pointerdown', () => {this.startGame();});'')
         gameOverCall"
    unfolding cu_append[symmetric] gameOverCall_def includes_str_cu by code_simp
  note r7 = only_first_occurrence_patched[THEN conjunct2, THEN conjunct2, THEN conjunct2,
      THEN conjunct2, THEN conjunct2, THEN conjunct2, THEN conjunct1, rule_format, OF w7]
  have c7: "injectAlternative
         (cu ''this.playButton.removeAllListeners();this.playButton.on('pointerdown', () => {this.startGame();});''
          @ cu ''this.playButton.removeAllListeners();this.playButton.on('pointerdown', () => {this.startGame();});'')
       = cu ''this.playButton.removeAllListeners();this.playButton.on('pointerdown', () => {this.startGame();});''
         @ alternativeInjection
         @ cu ''this.playButton.removeAllListeners();this.playButton.on('pointerdown', () => {this.startGame();});''"
    using r7 g7 unfolding k7 by simp

  have w8: "firstMatchAt endOfMethodPattern
         (cu ''showGameOverScreen() {this.playButton.on('pointerdown'});}''
          @ cu ''showGameOverScreen() {this.playButton.on('pointerdown'});}'') 0
         [[], cu ''showGameOverScreen() {'', [],
          cu (''this.playButton.on('pointerdown'' @ [CHR 0x27]), [], cu ''});'', [],
          [], [], cu ''}'', []]"
    by (rule firstMatchAt_0) code_simp
  have k8: "captures endOfMethodPattern [[], cu ''showGameOverScreen() {'', [],
          cu (''this.playButton.on('pointerdown'' @ [CHR 0x27]), [], cu ''});'', [],
          [], [], cu ''}'', []]
     = [cu ''showGameOverScreen() {this.playButton.on('pointerdown'});'', cu ''}'']"
    by (simp add: endOfMethodPattern_def cu_def)
  have l8: "length (concat [[], cu ''showGameOverScreen() {'', [],
          cu (''this.playButton.on('pointerdown'' @ [CHR 0x27]), [], cu ''});'', [],
          [], [], cu ''}'', []])
     = length (cu ''showGameOverScreen() {this.playButton.on('pointerdown'});}'')"
    by (simp add: cu_def)
  have g8: "\<not> includes_str
         (cu ''showGameOverScreen() {this.playButton.on('pointerdown'});}''
          @ cu ''showGameOverScreen() {this.playButton.on('pointerdown'});}'')
         gameOverCall"
    unfolding cu_append[symmetric] gameOverCall_def includes_str_cu by code_simp
  note r8 = only_first_occurrence_patched[THEN conjunct2, THEN conjunct2, THEN conjunct2,
      THEN conjunct2, THEN conjunct2, THEN conjunct2, THEN conjunct2, THEN conjunct1,
      rule_format, OF w8]
  have c8: "injectEndOfMethod
         (cu ''showGameOverScreen() {this.playButton.on('pointerdown'});}''
          @ cu ''showGameOverScreen() {this.playButton.on('pointerdown'});}'')
       = cu ''showGameOverScreen() {this.playButton.on('pointerdown'});''
         @ endOfMethodInjection @ cu ''}''
         @ cu ''showGameOverScreen() {this.playButton.on('pointerdown'});}''"
    using r8 g8 unfolding k8 l8 by simp

  have w9: "firstMatchAt phaserGameInstancePattern
         (cu ''const game = new Phaser.Game(config);'' @ cu ''const game = new Phaser.Game(config);'') 0
         [[], cu ''const game = new Phaser.Game(config);'', []]"
    by (rule firstMatchAt_0) code_simp
  note r9 = only_first_occurrence_patched[THEN conjunct2, THEN conjunct2, THEN conjunct2,
      THEN conjunct2, THEN conjunct2, THEN conjunct2, THEN conjunct2, THEN conjunct2,
      THEN conjunct1, rule_format, OF w9]
  have c9: "injectEventHandlers
         (cu ''const game = new Phaser.Game(config);'' @ cu ''const game = new Phaser.Game(config);'')
       = cu ''const game = new Phaser.Game(config);'' @ eventHandlersInjection
         @ cu ''const game = new Phaser.Game(config);''"
    using r9 by simp

  have w10: "firstMatchAt gameOverScreenPattern_part0
         (cu ''this.playButton.setPosition(450, 1360);this.playButton.setInteractive();''
          @ cu ''this.playButton.setPosition(450, 1360);this.playButton.setInteractive();'') 0
         [[], cu ''this.playButton.setPosition(450, 1360);'', [],
          cu ''this.playButton.setInteractive();'', []]"
    by (rule firstMatchAt_0) code_simp
  have k10: "concat [[], cu ''this.playButton.setPosition(450, 1360);'', [],
          cu ''this.playButton.setInteractive();'', []]
     = cu ''this.playButton.setPosition(450, 1360);this.playButton.setInteractive();''"
    by (simp add: cu_def)
  note r10 = only_first_occurrence_patched[THEN conjunct2, THEN conjunct2, THEN conjunct2,
      THEN conjunct2, THEN conjunct2, THEN conjunct2, THEN conjunct2, THEN conjunct2,
      THEN conjunct2, THEN conjunct1, rule_format, OF w10]
  have c10: "injectGameOver_part0
         (cu ''this.playButton.setPosition(450, 1360);this.playButton.setInteractive();''
          @ cu ''this.playButton.setPosition(450, 1360);this.playButton.setInteractive();'')
       = cu ''this.playButton.setPosition(450, 1360);this.playButton.setInteractive();''
         @ gameOverInjection_part0
         @ cu ''this.playButton.setPosition(450, 1360);this.playButton.setInteractive();''"
    using r10 unfolding k10 by simp

  have w11: "firstMatchAt fallbackPattern
         (cu ''this.playButton.removeAllListeners();this.startGame();});''
          @ cu ''this.playButton.removeAllListeners();this.startGame();});'') 0
         [[], cu ''this.playButton.removeAllListeners();'', [], cu ''this.startGame();'', [],
          cu ''});'', []]"
    by (rule firstMatchAt_0) code_simp
  have k11: "concat [[], cu ''this.playButton.removeAllListeners();'', [], cu ''this.startGame();'', [],
          cu ''});'', []]
     = cu ''this.playButton.removeAllListeners();this.startGame();});''"
    by (simp add: cu_def)
  have g11: "\<not> includes_str
         (cu ''this.playButton.removeAllListeners();this.startGame();});''
          @ cu ''this.playButton.removeAllListeners();this.startGame();});'')
         gameOverCall"
    unfolding cu_append[symmetric] gameOverCall_def includes_str_cu by code_simp
  note r11 = only_first_occurrence_patched[THEN conjunct2, THEN conjunct2, THEN conjunct2,
      THEN conjunct2, THEN conjunct2, THEN conjunct2, THEN conjunct2, THEN conjunct2,
      THEN conjunct2, THEN conjunct2, rule_format, OF w11]
  have c11: "injectFallback
         (cu ''this.playButton.removeAllListeners();this.startGame();});''
          @ cu ''this.playButton.removeAllListeners();this.startGame();});'')
       = cu ''this.playButton.removeAllListeners();this.startGame();});''
         @ fallbackInjection
         @ cu ''this.playButton.removeAllListeners();this.startGame();});''"
    using r11 g11 unfolding k11 by simp
  show ?thesis
    by (intro conjI h1 h2 h3 h4 c1 c2 c3 w4 c4 w5 c5 w6 c6 w7 c7 w8 c8 w9 c9 w10 c10 w11 c11)
qed

subsection \<open>Nothing of the input is lost\<close>


subsection \<open>One game-over hook\<close>

text \<open>
  Against claim C3 (primary anchor absent and first fallback anchor present give exactly
  one game-over hook in the output): a document that already contains the guarded call
  text, here twice, has no primary anchor and has the fallback anchor, yet nothing is
  injected and the output holds the call text twice.
\<close>

theorem guard_text_in_input_no_hook_injected:
  "exec gameOverScreenPattern_remix guardedDoc = None
   \<and> exec alternativePattern guardedDoc \<noteq> None
   \<and> injectFarcadeGameLogic_remix (injectFarcadeSDK guardedDoc) = guardedDoc
   \<and> occurrences gameOverCall (injectFarcadeGameLogic_remix (injectFarcadeSDK guardedDoc)) = 2"
proof -
  have g: "injectGameOver_remix guardedDoc = guardedDoc"
    using guardedDoc_anchors(1) by (simp add: injectGameOver_remix_def replaceFn_def)
  have e: "injectEventHandlers guardedDoc = guardedDoc"
    using guardedDoc_rest by (simp add: injectEventHandlers_def replaceFn_def)
  have "injectFarcadeGameLogic_remix (injectFarcadeSDK guardedDoc) = guardedDoc"
    using guardedDoc_includes
    by (simp add: injectFarcadeGameLogic_remix_def guardedDoc_staged g e injectAlternative_def
        injectEndOfMethod_def)
  then show ?thesis using guardedDoc_anchors(1,2) guardedDoc_count by simp
qed

text \<open>
  Claim C3 as amended. For every input document that does not already contain the text
  \<^verbatim>\<open>window.FarcadeSDK.singlePlayer.actions.gameOver\<close>: when the primary game-over anchor
  is absent and the first fallback anchor is present, the output contains the injected
  call exactly once; and in every case it contains the call at most once, so primary and
  fallback injections never both appear.
\<close>

theorem one_hook_from_fallback:
  assumes "\<not> includes_str html gameOverCall"
  shows "(exec gameOverScreenPattern_remix html = None \<and> exec alternativePattern html \<noteq> None
          \<longrightarrow> occurrences gameOverCall (injectFarcadeGameLogic_remix (injectFarcadeSDK html)) = 1)
       \<and> (exec gameOverScreenPattern_part0 html = None \<and> exec fallbackPattern html \<noteq> None
          \<longrightarrow> occurrences gameOverCall (injectFarcadeGameLogic_part0 (injectFarcadeSDK html)) = 1)
       \<and> occurrences gameOverCall (injectFarcadeGameLogic_remix (injectFarcadeSDK html)) \<le> 1
       \<and> occurrences gameOverCall (injectFarcadeGameLogic_part0 (injectFarcadeSDK html)) \<le> 1"
proof -
  define d where "d = injectReady (injectFarcadeSDK html)"
  define cr where "cr = occurrences gameOverCall (injectFarcadeGameLogic_remix (injectFarcadeSDK html))"
  define cp where "cp = occurrences gameOverCall (injectFarcadeGameLogic_part0 (injectFarcadeSDK html))"
  have r: "cr = (if exec gameOverScreenPattern_remix d = None \<and> exec alternativePattern d = None
                    \<and> exec endOfMethodPattern d = None then 0 else 1)"
    using count_remix[OF assms] unfolding d_def cr_def .
  have p: "cp = (if exec gameOverScreenPattern_part0 d = None \<and> exec fallbackPattern d = None
                    then 0 else 1)"
    using count_part0[OF assms] unfolding d_def cp_def .
  have r1: "cr = 1" if h: "exec alternativePattern html \<noteq> None"
  proof -
    have "exec alternativePattern d \<noteq> None" unfolding d_def using h by (rule alternative_kept)
    then show ?thesis unfolding r by simp
  qed
  have p1: "cp = 1" if h: "exec fallbackPattern html \<noteq> None"
  proof -
    have "exec fallbackPattern d \<noteq> None" unfolding d_def using h by (rule fallback_kept)
    then show ?thesis unfolding p by simp
  qed
  have r2: "cr \<le> 1" unfolding r by simp
  have p2: "cp \<le> 1" unfolding p by simp
  show ?thesis unfolding cr_def[symmetric] cp_def[symmetric] using r1 p1 r2 p2 by blast
qed

theorem one_hook_from_fallback_witness:
  "\<not> includes_str fallbackDoc gameOverCall
   \<and> exec gameOverScreenPattern_remix fallbackDoc = None
   \<and> exec alternativePattern fallbackDoc \<noteq> None
   \<and> exec gameOverScreenPattern_part0 fallbackDoc = None
   \<and> exec fallbackPattern fallbackDoc \<noteq> None
   \<and> occurrences gameOverCall (injectFarcadeGameLogic_remix (injectFarcadeSDK fallbackDoc)) = 1
   \<and> occurrences gameOverCall (injectFarcadeGameLogic_part0 (injectFarcadeSDK fallbackDoc)) = 1"
  using fallbackDoc_excludes fallbackDoc_anchors one_hook_from_fallback[OF fallbackDoc_excludes]
  by simp

subsection \<open>The guard reads the whole document\<close>

text \<open>
  Claim C10. For every input document that already contains the text
  \<^verbatim>\<open>window.FarcadeSDK.singlePlayer.actions.gameOver\<close> before patching, no fallback
  game-over rule fires, whether or not a fallback anchor is present and whether or not the
  primary anchor matched: each guarded rule returns its document unchanged, and the output
  is that of the SDK tag, ready, primary and event-handler rules alone.
\<close>

theorem guard_text_in_input_blocks_fallbacks:
  assumes "includes_str html gameOverCall"
  shows "injectFarcadeGameLogic_remix (injectFarcadeSDK html)
           = injectEventHandlers (injectGameOver_remix (injectReady (injectFarcadeSDK html)))
       \<and> injectAlternative (injectGameOver_remix (injectReady (injectFarcadeSDK html)))
           = injectGameOver_remix (injectReady (injectFarcadeSDK html))
       \<and> injectEndOfMethod (injectGameOver_remix (injectReady (injectFarcadeSDK html)))
           = injectGameOver_remix (injectReady (injectFarcadeSDK html))
       \<and> injectFarcadeGameLogic_part0 (injectFarcadeSDK html)
           = injectEventHandlers (injectGameOver_part0 (injectReady (injectFarcadeSDK html)))
       \<and> injectFallback (injectGameOver_part0 (injectReady (injectFarcadeSDK html)))
           = injectGameOver_part0 (injectReady (injectFarcadeSDK html))"
  using guard_blocks[OF assms]
  by (simp add: injectFarcadeGameLogic_remix_def injectFarcadeGameLogic_part0_def
      injectAlternative_def injectEndOfMethod_def injectFallback_def)

theorem guard_text_in_input_blocks_fallbacks_witness:
  "includes_str guardedDoc gameOverCall
   \<and> exec alternativePattern guardedDoc \<noteq> None
   \<and> exec fallbackPattern guardedDoc \<noteq> None
   \<and> injectAlternative (injectGameOver_remix (injectReady (injectFarcadeSDK guardedDoc))) = guardedDoc
   \<and> injectFallback (injectGameOver_part0 (injectReady (injectFarcadeSDK guardedDoc))) = guardedDoc"
proof -
  have g: "injectGameOver_remix guardedDoc = guardedDoc"
    using guardedDoc_anchors(1) by (simp add: injectGameOver_remix_def replaceFn_def)
  have p: "injectGameOver_part0 guardedDoc = guardedDoc"
    using guardedDoc_anchors(3) by (simp add: injectGameOver_part0_def replaceFn_def)
  show ?thesis
    using guardedDoc_includes guardedDoc_anchors(2,4)
      guard_text_in_input_blocks_fallbacks[OF guardedDoc_includes]
    by (simp add: guardedDoc_staged g p)
qed


subsection \<open>The two scripts\<close>

text \<open>
  Against claim C4 (both scripts produce identical output for every input, with the same
  delay constant): on a document that holds the primary game-over anchor of both scripts,
  \<^verbatim>\<open>remixIntegration.js\<close> appends its hook with a delay of 4000 and the second script
  its hook with a delay of 1000.
\<close>

theorem scripts_differ_on_primary_anchor:
  "injectFarcadeGameLogic_remix (injectFarcadeSDK primaryDoc) = primaryDoc @ gameOverInjection_remix
   \<and> injectFarcadeGameLogic_part0 (injectFarcadeSDK primaryDoc) = primaryDoc @ gameOverInjection_part0
   \<and> injectFarcadeGameLogic_remix (injectFarcadeSDK primaryDoc)
       \<noteq> injectFarcadeGameLogic_part0 (injectFarcadeSDK primaryDoc)"
  using primaryDoc_remix_hook primaryDoc_part0_hook primary_hooks_differ by simp

text \<open>
  Claim C4 as amended. The two scripts run the same sequence of rules (SDK tag, ready
  signal, primary game-over rule, guarded fallbacks, event handlers) and share the SDK-tag,
  ready and event-handler rules. They produce identical output exactly for the input
  documents on which neither of them injects a game-over hook, that is, on which every
  game-over rule of either script leaves the document \<open>d\<close> it receives (the input with
  the SDK tag and the ready signal put in) as it is. This is the case exactly when
  neither primary anchor matches \<open>d\<close> and, unless \<open>d\<close> already holds the guarded call
  text, no fallback anchor matches it either; the output of both is then \<open>d\<close> with the
  event handlers put in. Each script injects its game-over hooks with a single fixed delay
  of its own: every hook text holds exactly one \<^verbatim>\<open>delayedCall\<close>, with 4000 in
  \<^verbatim>\<open>remixIntegration.js\<close> and 1000 in the second script.
\<close>

theorem scripts_agree_iff_no_hook_injected:
  assumes "d = injectReady (injectFarcadeSDK html)"
  shows "(injectFarcadeGameLogic_remix (injectFarcadeSDK html)
            = injectFarcadeGameLogic_part0 (injectFarcadeSDK html)
          \<longleftrightarrow> injectGameOver_remix d = d \<and> injectAlternative d = d \<and> injectEndOfMethod d = d
              \<and> injectGameOver_part0 d = d \<and> injectFallback d = d)
       \<and> (injectGameOver_remix d = d \<and> injectAlternative d = d \<and> injectEndOfMethod d = d
              \<and> injectGameOver_part0 d = d \<and> injectFallback d = d
          \<longleftrightarrow> exec gameOverScreenPattern_remix d = None \<and> exec gameOverScreenPattern_part0 d = None
              \<and> (includes_str d gameOverCall
                  \<or> exec alternativePattern d = None \<and> exec endOfMethodPattern d = None
                      \<and> exec fallbackPattern d = None))
       \<and> (injectGameOver_remix d = d \<and> injectAlternative d = d \<and> injectEndOfMethod d = d
              \<and> injectGameOver_part0 d = d \<and> injectFallback d = d
          \<longrightarrow> injectFarcadeGameLogic_remix (injectFarcadeSDK html) = injectEventHandlers d)
       \<and> occurrences (cu ''delayedCall('') gameOverInjection_remix = 1
       \<and> occurrences (cu ''delayedCall(4000, '') gameOverInjection_remix = 1
       \<and> occurrences (cu ''delayedCall('') alternativeInjection = 1
       \<and> occurrences (cu ''delayedCall(4000, '') alternativeInjection = 1
       \<and> occurrences (cu ''delayedCall('') endOfMethodInjection = 1
       \<and> occurrences (cu ''delayedCall(4000, '') endOfMethodInjection = 1
       \<and> occurrences (cu ''delayedCall('') gameOverInjection_part0 = 1
       \<and> occurrences (cu ''delayedCall(1000, '') gameOverInjection_part0 = 1
       \<and> occurrences (cu ''delayedCall('') fallbackInjection = 1
       \<and> occurrences (cu ''delayedCall(1000, '') fallbackInjection = 1"
proof -
  have o: "injectFarcadeGameLogic_remix (injectFarcadeSDK html)
      = injectEventHandlers (injectEndOfMethod (injectAlternative (injectGameOver_remix d)))"
    "injectFarcadeGameLogic_part0 (injectFarcadeSDK html)
      = injectEventHandlers (injectFallback (injectGameOver_part0 d))"
    by (simp_all add: injectFarcadeGameLogic_remix_def injectFarcadeGameLogic_part0_def assms)
  have a: "injectFarcadeGameLogic_remix (injectFarcadeSDK html)
            = injectFarcadeGameLogic_part0 (injectFarcadeSDK html)
          \<longleftrightarrow> injectGameOver_remix d = d \<and> injectAlternative d = d \<and> injectEndOfMethod d = d
              \<and> injectGameOver_part0 d = d \<and> injectFallback d = d"
    unfolding o by (rule scripts_agree_iff)
  have b: "injectGameOver_remix d = d \<and> injectAlternative d = d \<and> injectEndOfMethod d = d
              \<and> injectGameOver_part0 d = d \<and> injectFallback d = d
          \<longleftrightarrow> exec gameOverScreenPattern_remix d = None \<and> exec gameOverScreenPattern_part0 d = None
              \<and> (includes_str d gameOverCall
                  \<or> exec alternativePattern d = None \<and> exec endOfMethodPattern d = None
                      \<and> exec fallbackPattern d = None)"
    unfolding unchanged_iff by auto
  have c: "injectGameOver_remix d = d \<and> injectAlternative d = d \<and> injectEndOfMethod d = d
              \<and> injectGameOver_part0 d = d \<and> injectFallback d = d
          \<longrightarrow> injectFarcadeGameLogic_remix (injectFarcadeSDK html) = injectEventHandlers d"
    unfolding o by simp
  show ?thesis by (intro conjI a b c delays)
qed

theorem scripts_agree_iff_no_hook_injected_witness:
  "injectReady (injectFarcadeSDK guardedDoc) = guardedDoc
   \<and> exec gameOverScreenPattern_remix guardedDoc = None
   \<and> exec gameOverScreenPattern_part0 guardedDoc = None
   \<and> includes_str guardedDoc gameOverCall
   \<and> exec alternativePattern guardedDoc \<noteq> None
   \<and> exec fallbackPattern guardedDoc \<noteq> None
   \<and> injectFarcadeGameLogic_remix (injectFarcadeSDK guardedDoc)
       = injectFarcadeGameLogic_part0 (injectFarcadeSDK guardedDoc)
   \<and> injectFarcadeGameLogic_remix (injectFarcadeSDK guardedDoc) = injectEventHandlers guardedDoc"
proof -
  note t = scripts_agree_iff_no_hook_injected[of "injectReady (injectFarcadeSDK guardedDoc)" guardedDoc,
      OF refl, unfolded guardedDoc_staged]
  have n: "exec gameOverScreenPattern_remix guardedDoc = None \<and> exec gameOverScreenPattern_part0 guardedDoc = None
              \<and> (includes_str guardedDoc gameOverCall
                  \<or> exec alternativePattern guardedDoc = None \<and> exec endOfMethodPattern guardedDoc = None
                      \<and> exec fallbackPattern guardedDoc = None)"
    using guardedDoc_anchors(1,3) guardedDoc_includes by simp
  from t[THEN conjunct2, THEN conjunct1] n
  have u: "injectGameOver_remix guardedDoc = guardedDoc \<and> injectAlternative guardedDoc = guardedDoc
      \<and> injectEndOfMethod guardedDoc = guardedDoc
      \<and> injectGameOver_part0 guardedDoc = guardedDoc \<and> injectFallback guardedDoc = guardedDoc"
    by (rule iffD2)
  from t[THEN conjunct1] u
  have e: "injectFarcadeGameLogic_remix (injectFarcadeSDK guardedDoc)
       = injectFarcadeGameLogic_part0 (injectFarcadeSDK guardedDoc)" by (rule iffD2)
  from t[THEN conjunct2, THEN conjunct2, THEN conjunct1, rule_format, OF u]
  have f: "injectFarcadeGameLogic_remix (injectFarcadeSDK guardedDoc) = injectEventHandlers guardedDoc" .
  show ?thesis
    by (intro conjI guardedDoc_staged guardedDoc_anchors guardedDoc_includes e f)
qed

end
